theory Spec2Isabelle
  imports Main "HOL-Library.Sublist" "HOL-Library.Multiset"
begin

section \<open>Data model of \<open>src/main.ts\<close>\<close>

text \<open>
  The action reads two boolean inputs and the pull request of the triggering event, asks
  the GitHub REST API for the changed files of that pull request and of every other open
  pull request, and reports the pull requests that touch the same files.

  The three types of the source are records; the \<open>status\<close> string union is a datatype.
\<close>

datatype status = added | removed | modified | renamed | copied | changed | unchanged

record FileChange =
  filename :: string
  status :: status

record ConflictWarning =
  prNumber :: int
  prTitle :: string
  conflictingFiles :: "string list"

text \<open>
  An entry of the \<open>pulls.list\<close> response, and the \<open>pull_request\<close> object of the event
  payload: the fields the action reads. A missing \<open>draft\<close> field is falsy in the source,
  hence \<open>False\<close> here.
\<close>

record PullRequest =
  number :: int
  draft :: bool
  title :: string

text \<open>
  A \<open>catch\<close> clause of the source receives any value; both handlers test it with
  \<open>instanceof Error\<close> and read \<open>message\<close> only then.
\<close>

datatype thrown = Error (message: string) | NonError string

text \<open>
  The REST client. The upstream service is a function of the request: within one run the
  same request is answered the same way. A call either throws (\<open>Inl\<close>) or resolves
  (\<open>Inr\<close>). \<open>pulls_listFiles\<close> takes \<open>pull_number\<close>, \<open>per_page\<close> and \<open>page\<close>;
  \<open>pulls_list\<close> takes \<open>per_page\<close> (the state is always \<open>open\<close>);
  \<open>issues_createComment\<close> takes \<open>issue_number\<close> and \<open>body\<close>.
\<close>

record Octokit =
  pulls_listFiles :: "int \<Rightarrow> nat \<Rightarrow> nat \<Rightarrow> thrown + FileChange list"
  pulls_list :: "nat \<Rightarrow> thrown + PullRequest list"
  issues_createComment :: "int \<Rightarrow> string \<Rightarrow> thrown + unit"

record RepositoryInfo =
  octokit :: Octokit
  owner :: string
  repo :: string

text \<open>
  What a run reads from its surroundings, each as the call the source makes:
  \<open>core.getBooleanInput\<close> and \<open>core.getInput\<close> by the name of the input,
  \<open>github.getOctokit\<close> by the token, the getter \<open>github.context.repo\<close> (owner and
  repository name) and \<open>github.context.payload.pull_request\<close> (absent on any other
  event). The first four can throw: a boolean input that is not a boolean, a required
  input that is not supplied, a client that cannot be built, a context without a
  repository.
\<close>

record Context =
  core_getBooleanInput :: "string \<Rightarrow> thrown + bool"
  core_getInput :: "string \<Rightarrow> thrown + string"
  github_getOctokit :: "string \<Rightarrow> thrown + Octokit"
  context_repo :: "thrown + string \<times> string"
  pull_request :: "PullRequest option"

subsection \<open>Effects\<close>

text \<open>
  Everything a run does to the outside is recorded, in call order: the requests sent to
  the REST client, the messages of \<open>core.debug\<close>, \<open>core.info\<close> and \<open>core.warning\<close>,
  the calls of \<open>core.setOutput\<close>, the message of \<open>core.setFailed\<close> and the documents
  written to the job summary.
\<close>

datatype request =
  ListFiles string string int nat nat
| ListPulls string string nat
| CreateComment string string int string

text \<open>
  A value handed to \<open>core.setOutput\<close>: a string, a number, or the \<open>JSON.stringify\<close>
  encoding of an array of conflict records (kept as the array it encodes).
\<close>

datatype output_value =
  OutString string
| OutNumber nat
| OutJSON "ConflictWarning list"

record effects =
  requests :: "request list"
  debugs :: "string list"
  infos :: "string list"
  warnings :: "string list"
  outputs :: "(string \<times> output_value) list"
  failed :: "string option"
  summaries :: "string list"

definition no_effects :: effects where
  "no_effects = \<lparr>requests = [], debugs = [], infos = [], warnings = [], outputs = [],
     failed = None, summaries = []\<rparr>"

definition send :: "request \<Rightarrow> effects \<Rightarrow> effects" where
  "send r st = st\<lparr>requests := requests st @ [r]\<rparr>"

definition core_debug :: "string \<Rightarrow> effects \<Rightarrow> effects" where
  "core_debug m st = st\<lparr>debugs := debugs st @ [m]\<rparr>"

definition core_info :: "string \<Rightarrow> effects \<Rightarrow> effects" where
  "core_info m st = st\<lparr>infos := infos st @ [m]\<rparr>"

definition core_warning :: "string \<Rightarrow> effects \<Rightarrow> effects" where
  "core_warning m st = st\<lparr>warnings := warnings st @ [m]\<rparr>"

definition core_setOutput :: "string \<Rightarrow> output_value \<Rightarrow> effects \<Rightarrow> effects" where
  "core_setOutput name v st = st\<lparr>outputs := outputs st @ [(name, v)]\<rparr>"

definition core_setFailed :: "string \<Rightarrow> effects \<Rightarrow> effects" where
  "core_setFailed m st = st\<lparr>failed := Some m\<rparr>"

definition summary_write :: "string \<Rightarrow> effects \<Rightarrow> effects" where
  "summary_write s st = st\<lparr>summaries := summaries st @ [s]\<rparr>"

text \<open>The value of an output after the run: the last call of \<open>setOutput\<close> for the name.\<close>

definition output_of :: "effects \<Rightarrow> string \<Rightarrow> output_value option" where
  "output_of st name = map_of (rev (outputs st)) name"

subsection \<open>Template literals\<close>

text \<open>
  Numbers and booleans as a template literal prints them. \<open>digit\<close> is only applied
  below ten.
\<close>

definition digit :: "nat \<Rightarrow> char" where
  "digit n = ''0123456789'' ! n"

fun show_nat :: "nat \<Rightarrow> string" where
  "show_nat n = (if n < 10 then [digit n] else show_nat (n div 10) @ [digit (n mod 10)])"

declare show_nat.simps [simp del]

definition show_int :: "int \<Rightarrow> string" where
  "show_int i = (if i < 0 then CHR ''-'' # show_nat (nat (- i)) else show_nat (nat i))"

definition show_bool :: "bool \<Rightarrow> string" where
  "show_bool b = (if b then ''true'' else ''false'')"

text \<open>\<open>String.prototype.includes\<close>: the argument occurs as a contiguous substring.\<close>

fun str_includes :: "string \<Rightarrow> string \<Rightarrow> bool" where
  "str_includes [] sub = (sub = [])"
| "str_includes (c # cs) sub = (prefix sub (c # cs) \<or> str_includes cs sub)"

section \<open>The conflict detector\<close>

definition findConflictingFiles :: "FileChange list \<Rightarrow> FileChange list \<Rightarrow> string list" where
  "findConflictingFiles currentPRFiles otherPRFiles =
    (let currentModifiedFiles =
           set (map filename (filter (\<lambda>f. status f = modified \<or> status f = removed) currentPRFiles));
         otherModifiedFiles =
           filter (\<lambda>f. (status f = modified \<or> status f = removed) \<and> filename f \<in> currentModifiedFiles)
             otherPRFiles
     in map filename otherModifiedFiles)"

section \<open>The file fetcher\<close>

definition perPage :: nat where
  "perPage = 100"

text \<open>
  The \<open>while (true)\<close> loop of \<open>getPRFiles\<close>, from the state it has when a page is about
  to be requested. It need not end: a service that answers every page with
  \<open>perPage\<close> items or more keeps it running, and then the result is \<open>None\<close>.
\<close>

partial_function (option) getPRFiles_loop ::
  "RepositoryInfo \<Rightarrow> int \<Rightarrow> nat \<Rightarrow> FileChange list \<Rightarrow> effects
    \<Rightarrow> ((thrown + FileChange list) \<times> effects) option" where
  "getPRFiles_loop ri prNum page files st =
    (let st1 = send (ListFiles (owner ri) (repo ri) prNum perPage page) st in
     case pulls_listFiles (octokit ri) prNum perPage page of
       Inl e \<Rightarrow> Some (Inl e, st1)
     | Inr data \<Rightarrow>
        (let files1 = files @ map (\<lambda>file. \<lparr>filename = filename file, status = status file\<rparr>) data in
         if length data < perPage then Some (Inr files1, st1)
         else getPRFiles_loop ri prNum (page + 1) files1 st1))"

declare getPRFiles_loop.simps [code]

definition getPRFiles ::
  "RepositoryInfo \<Rightarrow> int \<Rightarrow> effects \<Rightarrow> ((thrown + FileChange list) \<times> effects) option" where
  "getPRFiles ri prNum st = getPRFiles_loop ri prNum 1 [] st"

section \<open>The summary\<close>

text \<open>The inner loop of \<open>generateSummary\<close>: one bullet for each file of the slice.\<close>

definition summary_file :: "string \<Rightarrow> string \<Rightarrow> string" where
  "summary_file file summary = summary @ ''- `'' @ file @ ''`'' @ [CHR 0x0A]"

primrec summary_files :: "string list \<Rightarrow> string \<Rightarrow> string" where
  "summary_files [] summary = summary"
| "summary_files (file # files) summary = summary_files files (summary_file file summary)"

text \<open>The body of the outer loop: the section of one warning, appended to the summary.\<close>

definition summary_warning :: "ConflictWarning \<Rightarrow> string \<Rightarrow> string" where
  "summary_warning warning summary =
    (let s1 = summary @ ''### PR #'' @ show_int (prNumber warning) @ '': '' @ prTitle warning
                @ [CHR 0x0A];
         s2 = s1 @ ''**Overlapping files ('' @ show_nat (length (conflictingFiles warning))
                @ ''):**'' @ [CHR 0x0A];
         s3 = summary_files (take 10 (conflictingFiles warning)) s2;
         s4 = (if length (conflictingFiles warning) > 10
               then s3 @ ''- ... and '' @ show_nat (length (conflictingFiles warning) - 10)
                      @ '' more'' @ [CHR 0x0A]
               else s3)
     in s4 @ [CHR 0x0A])"

primrec summary_warnings :: "ConflictWarning list \<Rightarrow> string \<Rightarrow> string" where
  "summary_warnings [] summary = summary"
| "summary_warnings (warning # rest) summary = summary_warnings rest (summary_warning warning summary)"

definition summary_note :: string where
  "summary_note =
    ''> **Note:** This is a heuristic check based on file overlap. Actual merge conflicts may or may not occur.''
    @ [CHR 0x0A]"

definition generateSummary :: "ConflictWarning list \<Rightarrow> string" where
  "generateSummary warnings_list =
    (let s0 = ''## Potential Merge Conflicts Detected'' @ [CHR 0x0A, CHR 0x0A];
         s1 = s0 @ ''The following PRs modify the same files and may have conflicts when this PR is merged:''
                @ [CHR 0x0A, CHR 0x0A];
         s2 = summary_warnings warnings_list s1
     in s2 @ summary_note)"

section \<open>Posting the comment\<close>

definition postConflictComment ::
  "RepositoryInfo \<Rightarrow> int \<Rightarrow> ConflictWarning list \<Rightarrow> effects \<Rightarrow> (thrown + unit) \<times> effects" where
  "postConflictComment ri prNum warnings_list st =
    (let summary = generateSummary warnings_list;
         st1 = send (CreateComment (owner ri) (repo ri) prNum summary) st
     in case issues_createComment (octokit ri) prNum summary of
          Inl e \<Rightarrow> (Inl e, st1)
        | Inr _ \<Rightarrow> (Inr (), core_info ''Posted conflict warning comment to PR'' st1))"

section \<open>The run\<close>

text \<open>
  The \<open>for\<close> loop of \<open>run\<close> over the open pull requests, with the array
  \<open>conflictWarnings\<close> as accumulator. A throwing fetch leaves the loop: the result is
  then the thrown value together with the array as it is at the throw (the records
  pushed so far; the caller never sees them). A fetch that never returns leaves no
  result.
\<close>

fun aggregate ::
  "RepositoryInfo \<Rightarrow> bool \<Rightarrow> PullRequest \<Rightarrow> FileChange list \<Rightarrow> PullRequest list
    \<Rightarrow> ConflictWarning list \<Rightarrow> effects
    \<Rightarrow> ((thrown \<times> ConflictWarning list + ConflictWarning list) \<times> effects) option" where
  "aggregate ri incl currentPR currentPRChangedFiles [] conflictWarnings st =
    Some (Inr conflictWarnings, st)"
| "aggregate ri incl currentPR currentPRChangedFiles (pr # prs) conflictWarnings st =
    (if number pr = number currentPR
     then aggregate ri incl currentPR currentPRChangedFiles prs conflictWarnings st
     else if draft pr \<and> \<not> incl
     then aggregate ri incl currentPR currentPRChangedFiles prs conflictWarnings st
     else
       (case getPRFiles ri (number pr) st of
          None \<Rightarrow> None
        | Some (Inl e, st1) \<Rightarrow> Some (Inl (e, conflictWarnings), st1)
        | Some (Inr otherPRChangedFiles, st1) \<Rightarrow>
           (let files = findConflictingFiles currentPRChangedFiles otherPRChangedFiles in
            if length files > 0
            then aggregate ri incl currentPR currentPRChangedFiles prs
                   (conflictWarnings @
                      [\<lparr>prNumber = number pr, prTitle = title pr, conflictingFiles = files\<rparr>])
                   (core_warning (''PR #'' @ show_int (number pr) @ '' may have conflicts: ''
                      @ show_nat (length files) @ '' overlapping files'') st1)
            else aggregate ri incl currentPR currentPRChangedFiles prs conflictWarnings st1)))"

text \<open>The \<open>catch\<close> around the posting of the comment.\<close>

definition permission_warning :: string where
  "permission_warning =
    ''Insufficient permissions to post comment. Add '' @ [CHR 0x22] @ ''pull-requests: write''
      @ [CHR 0x22] @ '' permission.''"

definition post_catch :: "thrown \<Rightarrow> effects \<Rightarrow> effects" where
  "post_catch error st =
    (case error of
       Error m \<Rightarrow>
         (if str_includes m ''Resource not accessible by integration''
          then core_warning permission_warning st
          else core_warning (''Failed to post comment: '' @ m) st)
     | NonError _ \<Rightarrow> st)"

text \<open>The part of \<open>run\<close> after the loop: outputs, summary, comment.\<close>

definition report ::
  "RepositoryInfo \<Rightarrow> bool \<Rightarrow> PullRequest \<Rightarrow> ConflictWarning list \<Rightarrow> effects \<Rightarrow> effects" where
  "report ri post currentPR conflictWarnings st =
    (if length conflictWarnings > 0 then
       (let st1 = core_setOutput ''has-conflicts'' (OutString ''true'') st;
            st2 = core_setOutput ''conflict-count'' (OutNumber (length conflictWarnings)) st1;
            st3 = core_setOutput ''conflicts'' (OutJSON conflictWarnings) st2;
            summary = generateSummary conflictWarnings;
            st4 = summary_write summary st3;
            st5 = (if post then
                     (case postConflictComment ri (number currentPR) conflictWarnings st4 of
                        (Inl error, st') \<Rightarrow> post_catch error st'
                      | (Inr _, st') \<Rightarrow> st')
                   else st4)
        in core_info (''Found '' @ show_nat (length conflictWarnings)
                        @ '' PRs with potential conflicts'') st5)
     else
       (let st1 = core_setOutput ''has-conflicts'' (OutString ''false'') st;
            st2 = core_setOutput ''conflict-count'' (OutNumber 0) st1
        in core_info ''No potential conflicts detected with other open PRs'' st2))"

text \<open>
  The first statements of the \<open>try\<close> block: the two boolean inputs, the debug line,
  the token, the client and the repository. \<open>Inl\<close> is the value thrown by the first
  call that throws.
\<close>

definition read_inputs :: "Context \<Rightarrow> (thrown + bool \<times> bool \<times> RepositoryInfo) \<times> effects" where
  "read_inputs ctx =
    (case core_getBooleanInput ctx ''include-drafts'' of
       Inl e \<Rightarrow> (Inl e, no_effects)
     | Inr includeDrafts \<Rightarrow>
        (case core_getBooleanInput ctx ''post-comments'' of
           Inl e \<Rightarrow> (Inl e, no_effects)
         | Inr postComments \<Rightarrow>
            (let st0 = core_debug (''Include draft PRs: '' @ show_bool includeDrafts) no_effects
             in case core_getInput ctx ''github_token'' of
                  Inl e \<Rightarrow> (Inl e, st0)
                | Inr token \<Rightarrow>
                   (case github_getOctokit ctx token of
                      Inl e \<Rightarrow> (Inl e, st0)
                    | Inr client \<Rightarrow>
                       (case context_repo ctx of
                          Inl e \<Rightarrow> (Inl e, st0)
                        | Inr (owner_name, repo_name) \<Rightarrow>
                            (Inr (includeDrafts, postComments,
                                  \<lparr>octokit = client, owner = owner_name, repo = repo_name\<rparr>),
                             st0))))))"

text \<open>
  The body of the \<open>try\<close> block of \<open>run\<close>: \<open>Inl\<close> is the value that reaches the outer
  \<open>catch\<close>, \<open>Inr\<close> a normal end (also the early \<open>return\<close>).
\<close>

definition run_try :: "Context \<Rightarrow> ((thrown + unit) \<times> effects) option" where
  "run_try ctx =
    (case read_inputs ctx of
       (Inl e, st0) \<Rightarrow> Some (Inl e, st0)
     | (Inr (includeDrafts, postComments, ri), st0) \<Rightarrow>
        (case pull_request ctx of
           None \<Rightarrow>
             Some (Inr (), core_setFailed ''This action must be triggered by a pull_request event'' st0)
         | Some currentPR \<Rightarrow>
            (let st1 = core_info (''Checking PR #'' @ show_int (number currentPR)
                                    @ '' for potential conflicts...'') st0
             in case getPRFiles ri (number currentPR) st1 of
                  None \<Rightarrow> None
                | Some (Inl e, st2) \<Rightarrow> Some (Inl e, st2)
                | Some (Inr currentPRChangedFiles, st2) \<Rightarrow>
                   (let st3 = core_info (''Current PR #'' @ show_int (number currentPR) @ '' modifies ''
                                           @ show_nat (length currentPRChangedFiles) @ '' files'') st2;
                        st4 = send (ListPulls (owner ri) (repo ri) 100) st3
                    in case pulls_list (octokit ri) 100 of
                         Inl e \<Rightarrow> Some (Inl e, st4)
                       | Inr prs \<Rightarrow>
                          (case aggregate ri includeDrafts currentPR currentPRChangedFiles prs [] st4 of
                             None \<Rightarrow> None
                           | Some (Inl (e, pushed), st5) \<Rightarrow> Some (Inl e, st5)
                           | Some (Inr conflictWarnings, st5) \<Rightarrow>
                               Some (Inr (), report ri postComments currentPR conflictWarnings st5))))))"

text \<open>The outer \<open>catch\<close>.\<close>

definition run_catch :: "thrown \<Rightarrow> effects \<Rightarrow> effects" where
  "run_catch error st = (case error of Error m \<Rightarrow> core_setFailed m st | NonError _ \<Rightarrow> st)"

definition run :: "Context \<Rightarrow> effects option" where
  "run ctx =
    (case run_try ctx of
       None \<Rightarrow> None
     | Some (Inl error, st) \<Rightarrow> Some (run_catch error st)
     | Some (Inr _, st) \<Rightarrow> Some st)"

section \<open>Example contexts\<close>

text \<open>
  A context in which every read succeeds: the two boolean inputs have the given values,
  the token is supplied, the client is the given one, the repository is \<open>o/r\<close>.
\<close>

definition example_context :: "bool \<Rightarrow> bool \<Rightarrow> Octokit \<Rightarrow> PullRequest option \<Rightarrow> Context" where
  "example_context incl post client pr =
    \<lparr>core_getBooleanInput = (\<lambda>name. if name = ''include-drafts'' then Inr incl else Inr post),
      core_getInput = (\<lambda>name. Inr ''secret''),
      github_getOctokit = (\<lambda>token. Inr client),
      context_repo = Inr (''o'', ''r''),
      pull_request = pr\<rparr>"

text \<open>A pull request of 101 changed files: a full first page and a second page of one.\<close>

definition paged_octokit :: Octokit where
  "paged_octokit =
    \<lparr>pulls_listFiles = (\<lambda>prNum per_page page.
        if page = 1 then Inr (replicate 100 \<lparr>filename = ''file.ts'', status = modified\<rparr>)
        else if page = 2 then Inr [\<lparr>filename = ''file100.ts'', status = modified\<rparr>]
        else Inr []),
      pulls_list = (\<lambda>per_page. Inr []),
      issues_createComment = (\<lambda>issue_number body. Inr ())\<rparr>"


text \<open>
  Four open pull requests, listed in this order: the current one (1), one ready for
  review (2), a draft (3) and another one ready for review (4). Pull requests 1, 2 and 4
  modify \<open>shared.ts\<close>; the answer to the request for the files of the draft, and the
  answer to the posting of a comment, are parameters.
\<close>

definition current_pr :: PullRequest where
  "current_pr = \<lparr>number = 1, draft = False, title = ''Current PR''\<rparr>"

definition open_prs :: "PullRequest list" where
  "open_prs =
    [\<lparr>number = 1, draft = False, title = ''Current PR''\<rparr>,
     \<lparr>number = 2, draft = False, title = ''Other PR''\<rparr>,
     \<lparr>number = 3, draft = True, title = ''Draft PR''\<rparr>,
     \<lparr>number = 4, draft = False, title = ''Late PR''\<rparr>]"

definition shared_ts :: "FileChange list" where
  "shared_ts = [\<lparr>filename = ''shared.ts'', status = modified\<rparr>]"

definition overlap :: "int \<Rightarrow> string \<Rightarrow> ConflictWarning" where
  "overlap n t = \<lparr>prNumber = n, prTitle = t, conflictingFiles = [''shared.ts'']\<rparr>"

definition draft_octokit :: "thrown + FileChange list \<Rightarrow> thrown + unit \<Rightarrow> Octokit" where
  "draft_octokit draft_files posted =
    \<lparr>pulls_listFiles = (\<lambda>prNum per_page page. if prNum = 3 then draft_files else Inr shared_ts),
      pulls_list = (\<lambda>per_page. Inr open_prs),
      issues_createComment = (\<lambda>issue_number body. posted)\<rparr>"

definition draft_repo :: "thrown + FileChange list \<Rightarrow> thrown + unit \<Rightarrow> RepositoryInfo" where
  "draft_repo draft_files posted =
    \<lparr>octokit = draft_octokit draft_files posted, owner = ''o'', repo = ''r''\<rparr>"

definition draft_context :: "bool \<Rightarrow> bool \<Rightarrow> thrown + FileChange list \<Rightarrow> thrown + unit \<Rightarrow> Context" where
  "draft_context incl post draft_files posted =
    example_context incl post (draft_octokit draft_files posted) (Some current_pr)"

text \<open>
  A service that gives every request for changed files the same answer, and the listing
  of the open pull requests a given answer; the event is for pull request 1.
\<close>

definition uniform_octokit :: "thrown + FileChange list \<Rightarrow> thrown + PullRequest list \<Rightarrow> Octokit" where
  "uniform_octokit files listing =
    \<lparr>pulls_listFiles = (\<lambda>prNum per_page page. files),
      pulls_list = (\<lambda>per_page. listing),
      issues_createComment = (\<lambda>issue_number body. Inr ())\<rparr>"

definition uniform_repo :: "thrown + FileChange list \<Rightarrow> thrown + PullRequest list \<Rightarrow> RepositoryInfo" where
  "uniform_repo files listing =
    \<lparr>octokit = uniform_octokit files listing, owner = ''o'', repo = ''r''\<rparr>"

definition uniform_context :: "thrown + FileChange list \<Rightarrow> thrown + PullRequest list \<Rightarrow> Context" where
  "uniform_context files listing =
    example_context False False (uniform_octokit files listing) (Some current_pr)"




section \<open>The loop as the specification words it\<close>

text \<open>
  The aggregator of the specification, without effects, to be compared with the loop
  \<open>aggregate\<close>: the candidates are taken in the order of the listing; a candidate is
  left out if its number is the current one, or if it is a draft and drafts are not
  included, or if the detector finds nothing in its files; each remaining candidate
  gives the record of its number, its title and the detector's result.
  \<open>fetched\<close> is the list a fetch of the candidate's files returns (the fetch does not
  depend on the effects so far); it is only looked at where that fetch returns.
\<close>

definition fetched :: "RepositoryInfo \<Rightarrow> PullRequest \<Rightarrow> FileChange list" where
  "fetched ri pr =
    (case getPRFiles ri (number pr) no_effects of
       Some (Inr files, st) \<Rightarrow> files
     | _ \<Rightarrow> [])"



section \<open>The summary document as the specification words it\<close>

text \<open>
  The template of the specification for the human-readable summary, to be compared with
  \<open>generateSummary\<close>: for each record a heading with the number and the title, a line
  with the count \<open>k\<close> of overlapping files, a bullet for each of the first
  \<open>min k 10\<close> files, a line \<open>... and k-10 more\<close> only if \<open>k > 10\<close>, and a blank
  line; the fixed note ends the document.
\<close>

definition summary_section :: "ConflictWarning \<Rightarrow> string" where
  "summary_section w =
    (let k = length (conflictingFiles w) in
     ''### PR #'' @ show_int (prNumber w) @ '': '' @ prTitle w @ [CHR 0x0A]
     @ ''**Overlapping files ('' @ show_nat k @ ''):**'' @ [CHR 0x0A]
     @ concat (map (\<lambda>file. ''- `'' @ file @ ''`'' @ [CHR 0x0A]) (take (min k 10) (conflictingFiles w)))
     @ (if k > 10 then ''- ... and '' @ show_nat (k - 10) @ '' more'' @ [CHR 0x0A] else [])
     @ [CHR 0x0A])"

definition summary_document :: "ConflictWarning list \<Rightarrow> string" where
  "summary_document ws =
    ''## Potential Merge Conflicts Detected'' @ [CHR 0x0A, CHR 0x0A]
    @ ''The following PRs modify the same files and may have conflicts when this PR is merged:''
    @ [CHR 0x0A, CHR 0x0A]
    @ concat (map summary_section ws)
    @ ''> **Note:** This is a heuristic check based on file overlap. Actual merge conflicts may or may not occur.''
    @ [CHR 0x0A]"
section \<open>Properties of the conflict detector\<close>

lemma findConflictingFiles_filter:
  "findConflictingFiles A B =
    map filename (filter (\<lambda>f. (status f = modified \<or> status f = removed)
      \<and> filename f \<in> filename ` {a \<in> set A. status a = modified \<or> status a = removed}) B)"
  by (simp add: findConflictingFiles_def Let_def)

text \<open>
  Claim C1. For all file lists \<open>A\<close> (current pull request) and \<open>B\<close> (other pull
  request), the detector returns a subsequence of the filenames of \<open>B\<close>; every returned
  filename occurs in \<open>A\<close> with status modified or removed and in \<open>B\<close> with status
  modified or removed; the result is empty when \<open>A\<close> or \<open>B\<close> is empty, and it is empty
  exactly when no filename is shared with such a status on both sides.
\<close>

theorem findConflictingFiles_sound:
  "subseq (findConflictingFiles A B) (map filename B)
   \<and> (\<forall>n \<in> set (findConflictingFiles A B).
         (\<exists>a \<in> set A. filename a = n \<and> (status a = modified \<or> status a = removed))
       \<and> (\<exists>b \<in> set B. filename b = n \<and> (status b = modified \<or> status b = removed)))
   \<and> findConflictingFiles [] B = []
   \<and> findConflictingFiles A [] = []
   \<and> (findConflictingFiles A B = [] \<longleftrightarrow>
        \<not> (\<exists>a \<in> set A. \<exists>b \<in> set B. filename a = filename b
              \<and> (status a = modified \<or> status a = removed)
              \<and> (status b = modified \<or> status b = removed)))"
proof (intro conjI)
  show "subseq (findConflictingFiles A B) (map filename B)"
    unfolding findConflictingFiles_filter by (rule subseq_map) (rule subseq_filter_left)
  show "\<forall>n \<in> set (findConflictingFiles A B).
         (\<exists>a \<in> set A. filename a = n \<and> (status a = modified \<or> status a = removed))
       \<and> (\<exists>b \<in> set B. filename b = n \<and> (status b = modified \<or> status b = removed))"
    unfolding findConflictingFiles_filter by auto
  show "findConflictingFiles [] B = []"
    unfolding findConflictingFiles_filter by simp
  show "findConflictingFiles A [] = []"
    unfolding findConflictingFiles_filter by simp
  show "findConflictingFiles A B = [] \<longleftrightarrow>
        \<not> (\<exists>a \<in> set A. \<exists>b \<in> set B. filename a = filename b
              \<and> (status a = modified \<or> status a = removed)
              \<and> (status b = modified \<or> status b = removed))"
    unfolding findConflictingFiles_filter map_is_Nil_conv filter_empty_conv by (intro iffI notI; clarsimp simp: image_iff; metis)
qed

theorem findConflictingFiles_sound_witness:
  "findConflictingFiles
     [\<lparr>filename = ''shared.ts'', status = modified\<rparr>, \<lparr>filename = ''file2.ts'', status = added\<rparr>]
     [\<lparr>filename = ''shared.ts'', status = modified\<rparr>, \<lparr>filename = ''file4.ts'', status = added\<rparr>]
     = [''shared.ts'']
   \<and> subseq [''shared.ts''] [''shared.ts'', ''file4.ts'']
   \<and> findConflictingFiles
     [\<lparr>filename = ''file1.ts'', status = modified\<rparr>, \<lparr>filename = ''file2.ts'', status = added\<rparr>]
     [\<lparr>filename = ''file3.ts'', status = modified\<rparr>, \<lparr>filename = ''file4.ts'', status = added\<rparr>]
     = []"
  using findConflictingFiles_sound
    [of "[\<lparr>filename = ''shared.ts'', status = modified\<rparr>, \<lparr>filename = ''file2.ts'', status = added\<rparr>]"
        "[\<lparr>filename = ''shared.ts'', status = modified\<rparr>, \<lparr>filename = ''file4.ts'', status = added\<rparr>]"]
    findConflictingFiles_sound
    [of "[\<lparr>filename = ''file1.ts'', status = modified\<rparr>, \<lparr>filename = ''file2.ts'', status = added\<rparr>]"
        "[\<lparr>filename = ''file3.ts'', status = modified\<rparr>, \<lparr>filename = ''file4.ts'', status = added\<rparr>]"]
  by (simp add: findConflictingFiles_def)

lemma findConflictingFiles_append:
  "findConflictingFiles A (B1 @ B2) = findConflictingFiles A B1 @ findConflictingFiles A B2"
  by (simp add: findConflictingFiles_def Let_def)

lemma findConflictingFiles_single:
  "findConflictingFiles A [b] =
    (if (status b = modified \<or> status b = removed)
        \<and> (\<exists>a \<in> set A. filename a = filename b \<and> (status a = modified \<or> status a = removed))
     then [filename b] else [])"
  by (auto simp: findConflictingFiles_filter image_iff)

text \<open>
  Claim C2. The detector keeps the order of \<open>B\<close> and removes no duplicates: it
  distributes over the concatenation of \<open>B\<close>, maps a single entry to its filename or
  to nothing, and so two entries of \<open>B\<close> with the same conflicting filename \<open>n\<close> give
  \<open>n\<close> twice, at the places of the two entries; the number of occurrences of a
  conflicting filename in the result is the number of its modified or removed entries
  in \<open>B\<close>.
\<close>

theorem findConflictingFiles_stable_no_dedup:
  "findConflictingFiles A (B1 @ B2) = findConflictingFiles A B1 @ findConflictingFiles A B2
   \<and> findConflictingFiles A [b] =
        (if (status b = modified \<or> status b = removed)
            \<and> (\<exists>a \<in> set A. filename a = filename b \<and> (status a = modified \<or> status a = removed))
         then [filename b] else [])
   \<and> ((status b1 = modified \<or> status b1 = removed) \<and> (status b2 = modified \<or> status b2 = removed)
        \<and> filename b1 = n \<and> filename b2 = n
        \<and> (\<exists>a \<in> set A. filename a = n \<and> (status a = modified \<or> status a = removed))
      \<longrightarrow> findConflictingFiles A (B1 @ [b1] @ B2 @ [b2] @ B3) =
            findConflictingFiles A B1 @ [n] @ findConflictingFiles A B2 @ [n]
              @ findConflictingFiles A B3)
   \<and> ((\<exists>a \<in> set A. filename a = n \<and> (status a = modified \<or> status a = removed))
      \<longrightarrow> count_list (findConflictingFiles A B) n =
            length (filter (\<lambda>b. filename b = n \<and> (status b = modified \<or> status b = removed)) B))"
proof (intro conjI impI)
  show "findConflictingFiles A (B1 @ B2) = findConflictingFiles A B1 @ findConflictingFiles A B2"
    by (rule findConflictingFiles_append)
  show "findConflictingFiles A [b] =
        (if (status b = modified \<or> status b = removed)
            \<and> (\<exists>a \<in> set A. filename a = filename b \<and> (status a = modified \<or> status a = removed))
         then [filename b] else [])"
    by (rule findConflictingFiles_single)
next
  assume h: "(status b1 = modified \<or> status b1 = removed) \<and> (status b2 = modified \<or> status b2 = removed)
        \<and> filename b1 = n \<and> filename b2 = n
        \<and> (\<exists>a \<in> set A. filename a = n \<and> (status a = modified \<or> status a = removed))"
  from h have "findConflictingFiles A [b1] = [n]" "findConflictingFiles A [b2] = [n]"
    unfolding findConflictingFiles_single by auto
  then show "findConflictingFiles A (B1 @ [b1] @ B2 @ [b2] @ B3) =
            findConflictingFiles A B1 @ [n] @ findConflictingFiles A B2 @ [n]
              @ findConflictingFiles A B3"
    by (simp only: findConflictingFiles_append)
next
  assume h: "\<exists>a \<in> set A. filename a = n \<and> (status a = modified \<or> status a = removed)"
  show "count_list (findConflictingFiles A B) n =
            length (filter (\<lambda>b. filename b = n \<and> (status b = modified \<or> status b = removed)) B)"
  proof (induction B)
    case Nil
    show ?case by (simp add: findConflictingFiles_filter)
  next
    case (Cons b B)
    have "findConflictingFiles A (b # B) = findConflictingFiles A [b] @ findConflictingFiles A B"
      using findConflictingFiles_append [of A "[b]" B] by simp
    with Cons h show ?case
      by (auto simp: findConflictingFiles_single)
  qed
qed

theorem findConflictingFiles_stable_no_dedup_witness:
  "findConflictingFiles
     [\<lparr>filename = ''a.ts'', status = modified\<rparr>, \<lparr>filename = ''b.ts'', status = removed\<rparr>]
     ([\<lparr>filename = ''z.ts'', status = added\<rparr>] @ [\<lparr>filename = ''a.ts'', status = modified\<rparr>]
        @ [\<lparr>filename = ''b.ts'', status = modified\<rparr>] @ [\<lparr>filename = ''a.ts'', status = removed\<rparr>]
        @ [\<lparr>filename = ''a.ts'', status = added\<rparr>])
     = [''a.ts'', ''b.ts'', ''a.ts'']
   \<and> count_list (findConflictingFiles
     [\<lparr>filename = ''a.ts'', status = modified\<rparr>, \<lparr>filename = ''b.ts'', status = removed\<rparr>]
     [\<lparr>filename = ''a.ts'', status = modified\<rparr>, \<lparr>filename = ''a.ts'', status = removed\<rparr>,
      \<lparr>filename = ''a.ts'', status = added\<rparr>]) ''a.ts'' = 2"
  using findConflictingFiles_stable_no_dedup
    [of "[\<lparr>filename = ''a.ts'', status = modified\<rparr>, \<lparr>filename = ''b.ts'', status = removed\<rparr>]"
        "[\<lparr>filename = ''z.ts'', status = added\<rparr>]" "[\<lparr>filename = ''b.ts'', status = modified\<rparr>]"
        "\<lparr>filename = ''a.ts'', status = modified\<rparr>"
        "\<lparr>filename = ''a.ts'', status = modified\<rparr>" "\<lparr>filename = ''a.ts'', status = removed\<rparr>"
        "''a.ts''" "[\<lparr>filename = ''a.ts'', status = added\<rparr>]"
        "[\<lparr>filename = ''a.ts'', status = modified\<rparr>, \<lparr>filename = ''a.ts'', status = removed\<rparr>,
      \<lparr>filename = ''a.ts'', status = added\<rparr>]"]
  by (simp add: findConflictingFiles_def)

lemma findConflictingFiles_cong:
  assumes "set (map filename (filter (\<lambda>f. status f = modified \<or> status f = removed) A))
         = set (map filename (filter (\<lambda>f. status f = modified \<or> status f = removed) A'))"
  shows "findConflictingFiles A B = findConflictingFiles A' B"
  using assms by (simp add: findConflictingFiles_def Let_def)

text \<open>
  Claim C9. The detector depends on the current list \<open>A\<close> only through the set of
  filenames of its modified or removed entries: two current lists with the same such
  set give the same result. In particular a permutation of \<open>A\<close>, a list with the same
  entries as \<open>A\<close> (entries duplicated), a repeated entry, and an entry of any other
  status inserted or removed change nothing.
\<close>

theorem findConflictingFiles_current_set_only:
  "(set (map filename (filter (\<lambda>f. status f = modified \<or> status f = removed) A))
      = set (map filename (filter (\<lambda>f. status f = modified \<or> status f = removed) A'))
     \<longrightarrow> findConflictingFiles A B = findConflictingFiles A' B)
   \<and> (mset A = mset A' \<longrightarrow> findConflictingFiles A B = findConflictingFiles A' B)
   \<and> (set A = set A' \<longrightarrow> findConflictingFiles A B = findConflictingFiles A' B)
   \<and> findConflictingFiles (A1 @ [x] @ A2 @ [x] @ A3) B = findConflictingFiles (A1 @ [x] @ A2 @ A3) B
   \<and> (status y \<noteq> modified \<and> status y \<noteq> removed
        \<longrightarrow> findConflictingFiles (A1 @ [y] @ A2) B = findConflictingFiles (A1 @ A2) B)"
proof (intro conjI impI)
  assume "set (map filename (filter (\<lambda>f. status f = modified \<or> status f = removed) A))
      = set (map filename (filter (\<lambda>f. status f = modified \<or> status f = removed) A'))"
  then show "findConflictingFiles A B = findConflictingFiles A' B"
    by (rule findConflictingFiles_cong)
next
  assume "mset A = mset A'"
  then have "set A = set A'" by (rule mset_eq_setD)
  then show "findConflictingFiles A B = findConflictingFiles A' B"
    by (intro findConflictingFiles_cong) simp
next
  assume "set A = set A'"
  then show "findConflictingFiles A B = findConflictingFiles A' B"
    by (intro findConflictingFiles_cong) simp
next
  show "findConflictingFiles (A1 @ [x] @ A2 @ [x] @ A3) B = findConflictingFiles (A1 @ [x] @ A2 @ A3) B"
    by (intro findConflictingFiles_cong) auto
next
  assume "status y \<noteq> modified \<and> status y \<noteq> removed"
  then show "findConflictingFiles (A1 @ [y] @ A2) B = findConflictingFiles (A1 @ A2) B"
    by (intro findConflictingFiles_cong) auto
qed

theorem findConflictingFiles_current_set_only_witness:
  "findConflictingFiles
     [\<lparr>filename = ''a.ts'', status = modified\<rparr>, \<lparr>filename = ''b.ts'', status = removed\<rparr>]
     [\<lparr>filename = ''b.ts'', status = modified\<rparr>, \<lparr>filename = ''c.ts'', status = modified\<rparr>]
   = findConflictingFiles
     [\<lparr>filename = ''b.ts'', status = removed\<rparr>, \<lparr>filename = ''a.ts'', status = modified\<rparr>]
     [\<lparr>filename = ''b.ts'', status = modified\<rparr>, \<lparr>filename = ''c.ts'', status = modified\<rparr>]
   \<and> findConflictingFiles
     ([\<lparr>filename = ''a.ts'', status = modified\<rparr>] @ [\<lparr>filename = ''c.ts'', status = added\<rparr>]
        @ [\<lparr>filename = ''b.ts'', status = removed\<rparr>])
     [\<lparr>filename = ''b.ts'', status = modified\<rparr>, \<lparr>filename = ''c.ts'', status = modified\<rparr>]
   = [''b.ts'']
   \<and> mset [\<lparr>filename = ''a.ts'', status = modified\<rparr>, \<lparr>filename = ''b.ts'', status = removed\<rparr>]
     = mset [\<lparr>filename = ''b.ts'', status = removed\<rparr>, \<lparr>filename = ''a.ts'', status = modified\<rparr>]"
  using findConflictingFiles_current_set_only
    [of "[\<lparr>filename = ''a.ts'', status = modified\<rparr>, \<lparr>filename = ''b.ts'', status = removed\<rparr>]"
        "[\<lparr>filename = ''b.ts'', status = removed\<rparr>, \<lparr>filename = ''a.ts'', status = modified\<rparr>]"
        "[\<lparr>filename = ''b.ts'', status = modified\<rparr>, \<lparr>filename = ''c.ts'', status = modified\<rparr>]"
        "[\<lparr>filename = ''a.ts'', status = modified\<rparr>]"
        "\<lparr>filename = ''a.ts'', status = modified\<rparr>" "[\<lparr>filename = ''b.ts'', status = removed\<rparr>]" "[]"
        "\<lparr>filename = ''c.ts'', status = added\<rparr>"]
  by (simp add: findConflictingFiles_def)

section \<open>Properties of the file fetcher\<close>

lemma FileChange_rebuild: "map (\<lambda>file. \<lparr>filename = filename file, status = status file\<rparr>) data = data"
  by (induction data) simp_all

lemma getPRFiles_loop_Inl:
  "pulls_listFiles (octokit ri) prNum perPage page = Inl e \<Longrightarrow>
   getPRFiles_loop ri prNum page files st =
     Some (Inl e, send (ListFiles (owner ri) (repo ri) prNum perPage page) st)"
  by (subst getPRFiles_loop.simps) (simp add: Let_def)

lemma getPRFiles_loop_last:
  "pulls_listFiles (octokit ri) prNum perPage page = Inr data \<Longrightarrow> length data < perPage \<Longrightarrow>
   getPRFiles_loop ri prNum page files st =
     Some (Inr (files @ data), send (ListFiles (owner ri) (repo ri) prNum perPage page) st)"
  by (subst getPRFiles_loop.simps) (simp add: Let_def FileChange_rebuild)

lemma getPRFiles_loop_more:
  "pulls_listFiles (octokit ri) prNum perPage page = Inr data \<Longrightarrow> \<not> length data < perPage \<Longrightarrow>
   getPRFiles_loop ri prNum page files st =
     getPRFiles_loop ri prNum (page + 1) (files @ data)
       (send (ListFiles (owner ri) (repo ri) prNum perPage page) st)"
  by (subst getPRFiles_loop.simps) (simp add: Let_def FileChange_rebuild)

lemma getPRFiles_loop_pages:
  assumes "pages \<noteq> []"
    and "\<forall>i < length pages. pulls_listFiles (octokit ri) prNum perPage (page + i) = Inr (pages ! i)"
    and "\<forall>i < length pages - 1. perPage \<le> length (pages ! i)"
    and "length (last pages) < perPage"
  shows "getPRFiles_loop ri prNum page files st =
     Some (Inr (files @ concat pages),
           st\<lparr>requests := requests st @
                 map (\<lambda>i. ListFiles (owner ri) (repo ri) prNum perPage (page + i)) [0..<length pages]\<rparr>)"
  using assms
proof (induction pages arbitrary: page files st)
  case Nil
  then show ?case by simp
next
  case (Cons d ds)
  have "0 < length (d # ds)" by simp
  with Cons.prems(2) have "pulls_listFiles (octokit ri) prNum perPage (page + 0) = Inr ((d # ds) ! 0)"
    by blast
  then have d: "pulls_listFiles (octokit ri) prNum perPage page = Inr d" by simp
  show ?case
  proof (cases "ds = []")
    case True
    with Cons.prems(4) have "length d < perPage" by simp
    with d True show ?thesis
      by (simp add: getPRFiles_loop_last send_def)
  next
    case False
    then have "0 < length (d # ds) - 1" by simp
    with Cons.prems(3) have "perPage \<le> length ((d # ds) ! 0)" by blast
    then have big: "\<not> length d < perPage" by simp
    have a: "\<forall>i < length ds. pulls_listFiles (octokit ri) prNum perPage (page + 1 + i) = Inr (ds ! i)"
    proof (intro allI impI)
      fix i assume "i < length ds"
      then have "Suc i < length (d # ds)" by simp
      with Cons.prems(2) have "pulls_listFiles (octokit ri) prNum perPage (page + Suc i) = Inr ((d # ds) ! Suc i)"
        by blast
      then show "pulls_listFiles (octokit ri) prNum perPage (page + 1 + i) = Inr (ds ! i)" by simp
    qed
    have b: "\<forall>i < length ds - 1. perPage \<le> length (ds ! i)"
    proof (intro allI impI)
      fix i assume "i < length ds - 1"
      then have "Suc i < length (d # ds) - 1" by simp
      with Cons.prems(3) have "perPage \<le> length ((d # ds) ! Suc i)" by blast
      then show "perPage \<le> length (ds ! i)" by simp
    qed
    have c: "length (last ds) < perPage"
      using Cons.prems(4) False by simp
    have shift: "map (\<lambda>i. ListFiles (owner ri) (repo ri) prNum perPage (page + i)) [0..<length (d # ds)]
        = ListFiles (owner ri) (repo ri) prNum perPage page
          # map (\<lambda>i. ListFiles (owner ri) (repo ri) prNum perPage (page + 1 + i)) [0..<length ds]"
      by (simp add: upt_conv_Cons map_Suc_upt [symmetric] del: upt_Suc)
    show ?thesis
      unfolding getPRFiles_loop_more [OF d big] Cons.IH [OF False a b c] shift
      by (simp add: send_def)
  qed
qed



lemma getPRFiles_loop_requests:
  assumes "getPRFiles_loop ri prNum page files st = Some (r, st')"
  shows "\<exists>reqs. st' = st\<lparr>requests := requests st @ ListFiles (owner ri) (repo ri) prNum perPage page # reqs\<rparr>
     \<and> (\<forall>st0. getPRFiles_loop ri prNum page files st0 =
           Some (r, st0\<lparr>requests := requests st0 @ ListFiles (owner ri) (repo ri) prNum perPage page # reqs\<rparr>))"
  using assms
proof (induction ri prNum page files st "(r, st')" arbitrary: r st' rule: getPRFiles_loop.raw_induct)
  case (1 loop ri prNum page files st)
  show ?case
  proof (cases "pulls_listFiles (octokit ri) prNum perPage page")
    case (Inl e)
    with "1.hyps"(2) have "r = Inl e" "st' = send (ListFiles (owner ri) (repo ri) prNum perPage page) st"
      by (simp_all add: Let_def)
    then show ?thesis
      by (intro exI [of _ "[]"]) (simp add: send_def getPRFiles_loop_Inl [OF Inl])
  next
    case (Inr data)
    show ?thesis
    proof (cases "length data < perPage")
      case True
      with Inr "1.hyps"(2) have "r = Inr (files @ data)"
          "st' = send (ListFiles (owner ri) (repo ri) prNum perPage page) st"
        by (simp_all add: Let_def FileChange_rebuild)
      then show ?thesis
        by (intro exI [of _ "[]"]) (simp add: send_def getPRFiles_loop_last [OF Inr True])
    next
      case False
      with Inr "1.hyps"(2) have rec: "loop ri prNum (page + 1) (files @ data)
          (send (ListFiles (owner ri) (repo ri) prNum perPage page) st) = Some (r, st')"
        by (simp add: Let_def FileChange_rebuild)
      have "getPRFiles_loop ri prNum (page + 1) (files @ data)
          (send (ListFiles (owner ri) (repo ri) prNum perPage page) st) = Some (r, st')"
        using "1.prems" getPRFiles_loop_more [OF Inr False] by simp
      from "1.hyps"(1) [OF rec this] obtain reqs where
        st': "st' = (send (ListFiles (owner ri) (repo ri) prNum perPage page) st)
                \<lparr>requests := requests (send (ListFiles (owner ri) (repo ri) prNum perPage page) st)
                    @ ListFiles (owner ri) (repo ri) prNum perPage (page + 1) # reqs\<rparr>"
        and all: "\<And>st0. getPRFiles_loop ri prNum (page + 1) (files @ data) st0 =
           Some (r, st0\<lparr>requests := requests st0
                    @ ListFiles (owner ri) (repo ri) prNum perPage (page + 1) # reqs\<rparr>)"
        by blast
      show ?thesis
      proof (intro exI [of _ "ListFiles (owner ri) (repo ri) prNum perPage (page + 1) # reqs"] conjI allI)
        show "st' = st\<lparr>requests := requests st @ ListFiles (owner ri) (repo ri) prNum perPage page
                 # ListFiles (owner ri) (repo ri) prNum perPage (page + 1) # reqs\<rparr>"
          using st' by (simp add: send_def)
        fix st0
        show "getPRFiles_loop ri prNum page files st0 =
          Some (r, st0\<lparr>requests := requests st0 @ ListFiles (owner ri) (repo ri) prNum perPage page
                 # ListFiles (owner ri) (repo ri) prNum perPage (page + 1) # reqs\<rparr>)"
          unfolding getPRFiles_loop_more [OF Inr False] all by (simp add: send_def)
      qed
    qed
  qed
qed (rule assms)


text \<open>
  Claim C7. The fetcher asks for pages of 100 items, starting at page 1. When the pages
  \<open>1, \<dots>, n\<close> are answered, every page before the last with 100 items (or more)
  and the last with fewer than 100, it sends exactly the requests for the pages
  \<open>1, \<dots>, n\<close> in this order and returns the concatenation of the pages in this
  order, every entry kept. In particular a first page of exactly 100 items is followed
  by the request for page 2.
\<close>

theorem getPRFiles_pagination:
  "perPage = 100
   \<and> (pages \<noteq> []
        \<and> (\<forall>i < length pages. pulls_listFiles (octokit ri) prNum 100 (Suc i) = Inr (pages ! i))
        \<and> (\<forall>i < length pages - 1. 100 \<le> length (pages ! i))
        \<and> length (last pages) < 100
      \<longrightarrow> getPRFiles ri prNum st =
            Some (Inr (concat pages),
                  st\<lparr>requests := requests st @
                        map (\<lambda>i. ListFiles (owner ri) (repo ri) prNum 100 (Suc i)) [0..<length pages]\<rparr>))
   \<and> (pulls_listFiles (octokit ri) prNum 100 1 = Inr first_page \<and> length first_page = 100
        \<and> getPRFiles ri prNum st = Some (r, st')
      \<longrightarrow> prefix (requests st @ [ListFiles (owner ri) (repo ri) prNum 100 1,
                                  ListFiles (owner ri) (repo ri) prNum 100 2])
                 (requests st'))"
proof (intro conjI impI)
  show "perPage = 100" by (simp add: perPage_def)
next
  assume h: "pages \<noteq> []
        \<and> (\<forall>i < length pages. pulls_listFiles (octokit ri) prNum 100 (Suc i) = Inr (pages ! i))
        \<and> (\<forall>i < length pages - 1. 100 \<le> length (pages ! i))
        \<and> length (last pages) < 100"
  then have "getPRFiles_loop ri prNum 1 [] st =
     Some (Inr ([] @ concat pages),
           st\<lparr>requests := requests st @
                 map (\<lambda>i. ListFiles (owner ri) (repo ri) prNum perPage (1 + i)) [0..<length pages]\<rparr>)"
    by (intro getPRFiles_loop_pages) (simp_all add: perPage_def)
  then show "getPRFiles ri prNum st =
            Some (Inr (concat pages),
                  st\<lparr>requests := requests st @
                        map (\<lambda>i. ListFiles (owner ri) (repo ri) prNum 100 (Suc i)) [0..<length pages]\<rparr>)"
    by (simp add: getPRFiles_def perPage_def)
next
  assume h: "pulls_listFiles (octokit ri) prNum 100 1 = Inr first_page \<and> length first_page = 100
        \<and> getPRFiles ri prNum st = Some (r, st')"
  then have p1: "pulls_listFiles (octokit ri) prNum perPage 1 = Inr first_page"
    and big: "\<not> length first_page < perPage"
    by (simp_all add: perPage_def)
  from h have "getPRFiles_loop ri prNum (1 + 1) ([] @ first_page)
      (send (ListFiles (owner ri) (repo ri) prNum perPage 1) st) = Some (r, st')"
    unfolding getPRFiles_def getPRFiles_loop_more [OF p1 big] by simp
  from getPRFiles_loop_requests [OF this] obtain reqs where
    "st' = (send (ListFiles (owner ri) (repo ri) prNum perPage 1) st)
       \<lparr>requests := requests (send (ListFiles (owner ri) (repo ri) prNum perPage 1) st)
          @ ListFiles (owner ri) (repo ri) prNum perPage (1 + 1) # reqs\<rparr>"
    by blast
  then have "requests st' = (requests st @ [ListFiles (owner ri) (repo ri) prNum 100 1,
                                  ListFiles (owner ri) (repo ri) prNum 100 2]) @ reqs"
    by (simp add: send_def perPage_def)
  then show "prefix (requests st @ [ListFiles (owner ri) (repo ri) prNum 100 1,
                                  ListFiles (owner ri) (repo ri) prNum 100 2])
                 (requests st')"
    by (simp only: prefixI)
qed

theorem getPRFiles_pagination_witness:
  "getPRFiles \<lparr>octokit = paged_octokit, owner = ''o'', repo = ''r''\<rparr> 1 no_effects =
     Some (Inr (replicate 100 \<lparr>filename = ''file.ts'', status = modified\<rparr>
                  @ [\<lparr>filename = ''file100.ts'', status = modified\<rparr>]),
           no_effects\<lparr>requests := [ListFiles ''o'' ''r'' 1 100 1, ListFiles ''o'' ''r'' 1 100 2]\<rparr>)
   \<and> prefix [ListFiles ''o'' ''r'' 1 100 1, ListFiles ''o'' ''r'' 1 100 2]
        (requests (no_effects\<lparr>requests := [ListFiles ''o'' ''r'' 1 100 1, ListFiles ''o'' ''r'' 1 100 2]\<rparr>))"
proof -
  let ?ri = "\<lparr>octokit = paged_octokit, owner = ''o'', repo = ''r''\<rparr>"
  let ?pages = "[replicate 100 \<lparr>filename = ''file.ts'', status = modified\<rparr>,
                 [\<lparr>filename = ''file100.ts'', status = modified\<rparr>]]"
  have pages: "\<forall>i < length ?pages. pulls_listFiles (octokit ?ri) 1 100 (Suc i) = Inr (?pages ! i)"
    by (simp add: paged_octokit_def less_Suc_eq)
  have full: "\<forall>i < length ?pages - 1. 100 \<le> length (?pages ! i)"
    by simp
  have fetched: "getPRFiles ?ri 1 no_effects =
     Some (Inr (concat ?pages),
           no_effects\<lparr>requests := requests no_effects @
              map (\<lambda>i. ListFiles (owner ?ri) (repo ?ri) 1 100 (Suc i)) [0..<length ?pages]\<rparr>)"
    using getPRFiles_pagination [of ?pages ?ri 1 no_effects
        "replicate 100 \<lparr>filename = ''file.ts'', status = modified\<rparr>"
        "Inr (concat ?pages)"
        "no_effects\<lparr>requests := [ListFiles ''o'' ''r'' 1 100 1, ListFiles ''o'' ''r'' 1 100 2]\<rparr>"]
      pages full by simp
  from fetched show ?thesis
    by (simp add: no_effects_def upt_conv_Cons del: upt_Suc)
qed

section \<open>Properties of the loop over the open pull requests\<close>

lemma getPRFiles_frame:
  assumes "getPRFiles ri prNum st = Some (r, st')"
  shows "\<exists>reqs. st' = st\<lparr>requests := requests st @ reqs\<rparr>
     \<and> (\<forall>st0. getPRFiles ri prNum st0 = Some (r, st0\<lparr>requests := requests st0 @ reqs\<rparr>))"
proof -
  from assms have "getPRFiles_loop ri prNum 1 [] st = Some (r, st')"
    by (simp only: getPRFiles_def)
  from getPRFiles_loop_requests [OF this] obtain reqs where
    "st' = st\<lparr>requests := requests st @ ListFiles (owner ri) (repo ri) prNum perPage 1 # reqs\<rparr>"
    "\<And>st0. getPRFiles_loop ri prNum 1 [] st0 =
       Some (r, st0\<lparr>requests := requests st0 @ ListFiles (owner ri) (repo ri) prNum perPage 1 # reqs\<rparr>)"
    by blast
  then show ?thesis
    unfolding getPRFiles_def
    by (intro exI [of _ "ListFiles (owner ri) (repo ri) prNum perPage 1 # reqs"]) simp
qed

lemma getPRFiles_other_state:
  assumes "getPRFiles ri prNum st = Some (r, st')"
  shows "\<exists>st0'. getPRFiles ri prNum st0 = Some (r, st0')"
proof -
  from getPRFiles_frame [OF assms] obtain reqs where
    "\<forall>st0. getPRFiles ri prNum st0 = Some (r, st0\<lparr>requests := requests st0 @ reqs\<rparr>)"
    by blast
  then have "getPRFiles ri prNum st0 = Some (r, st0\<lparr>requests := requests st0 @ reqs\<rparr>)" ..
  then show ?thesis ..
qed

lemma getPRFiles_effects:
  assumes "getPRFiles ri prNum st = Some (r, st')"
  shows "outputs st' = outputs st \<and> failed st' = failed st \<and> summaries st' = summaries st
       \<and> warnings st' = warnings st \<and> infos st' = infos st \<and> debugs st' = debugs st"
proof -
  from getPRFiles_frame [OF assms] obtain reqs where
    "st' = st\<lparr>requests := requests st @ reqs\<rparr>" by blast
  then show ?thesis by simp
qed

text \<open>One step of the loop, by the branch taken.\<close>

lemma aggregate_skip:
  "number pr = number currentPR \<or> (draft pr \<and> \<not> incl) \<Longrightarrow>
   aggregate ri incl currentPR files (pr # prs) ws st = aggregate ri incl currentPR files prs ws st"
  by auto

lemma aggregate_fetch_None:
  "number pr \<noteq> number currentPR \<Longrightarrow> (draft pr \<longrightarrow> incl) \<Longrightarrow>
   getPRFiles ri (number pr) st = None \<Longrightarrow>
   aggregate ri incl currentPR files (pr # prs) ws st = None"
  by auto

lemma aggregate_fetch_Inl:
  "number pr \<noteq> number currentPR \<Longrightarrow> (draft pr \<longrightarrow> incl) \<Longrightarrow>
   getPRFiles ri (number pr) st = Some (Inl e, st1) \<Longrightarrow>
   aggregate ri incl currentPR files (pr # prs) ws st = Some (Inl (e, ws), st1)"
  by auto

lemma aggregate_fetch_empty:
  "number pr \<noteq> number currentPR \<Longrightarrow> (draft pr \<longrightarrow> incl) \<Longrightarrow>
   getPRFiles ri (number pr) st = Some (Inr other, st1) \<Longrightarrow>
   findConflictingFiles files other = [] \<Longrightarrow>
   aggregate ri incl currentPR files (pr # prs) ws st = aggregate ri incl currentPR files prs ws st1"
  by auto

lemma aggregate_fetch_conflict:
  "number pr \<noteq> number currentPR \<Longrightarrow> (draft pr \<longrightarrow> incl) \<Longrightarrow>
   getPRFiles ri (number pr) st = Some (Inr other, st1) \<Longrightarrow>
   findConflictingFiles files other \<noteq> [] \<Longrightarrow>
   aggregate ri incl currentPR files (pr # prs) ws st =
     aggregate ri incl currentPR files prs
       (ws @ [\<lparr>prNumber = number pr, prTitle = title pr,
                conflictingFiles = findConflictingFiles files other\<rparr>])
       (core_warning (''PR #'' @ show_int (number pr) @ '' may have conflicts: ''
           @ show_nat (length (findConflictingFiles files other)) @ '' overlapping files'') st1)"
  by (auto simp: Let_def)


text \<open>A step that fetches ends like the fetch, or goes on with the rest of the list.\<close>

lemma aggregate_fetch_cases:
  assumes "number pr \<noteq> number currentPR" "draft pr \<longrightarrow> incl"
    and "aggregate ri incl currentPR files (pr # prs) ws st = Some (r, st')"
  obtains (threw) e where "getPRFiles ri (number pr) st = Some (Inl e, st')" "r = Inl (e, ws)"
  | (empty) other st1 where "getPRFiles ri (number pr) st = Some (Inr other, st1)"
      "findConflictingFiles files other = []"
      "aggregate ri incl currentPR files prs ws st1 = Some (r, st')"
  | (conflict) other st1 where "getPRFiles ri (number pr) st = Some (Inr other, st1)"
      "findConflictingFiles files other \<noteq> []"
      "aggregate ri incl currentPR files prs
         (ws @ [\<lparr>prNumber = number pr, prTitle = title pr,
                  conflictingFiles = findConflictingFiles files other\<rparr>])
         (core_warning (''PR #'' @ show_int (number pr) @ '' may have conflicts: ''
             @ show_nat (length (findConflictingFiles files other)) @ '' overlapping files'') st1)
       = Some (r, st')"
proof (cases "getPRFiles ri (number pr) st")
  case None
  from aggregate_fetch_None [OF assms(1,2) None] assms(3) show ?thesis by simp
next
  case (Some res)
  obtain r1 st1 where res: "res = (r1, st1)" by (cases res)
  show ?thesis
  proof (cases r1)
    case (Inl e)
    with Some res have g: "getPRFiles ri (number pr) st = Some (Inl e, st1)" by simp
    from aggregate_fetch_Inl [OF assms(1,2) g] assms(3) have "r = Inl (e, ws)" "st' = st1" by simp_all
    with g threw show ?thesis by simp
  next
    case (Inr other)
    with Some res have g: "getPRFiles ri (number pr) st = Some (Inr other, st1)" by simp
    show ?thesis
    proof (cases "findConflictingFiles files other = []")
      case True
      from aggregate_fetch_empty [OF assms(1,2) g True] assms(3) empty [OF g True]
      show ?thesis by simp
    next
      case False
      from aggregate_fetch_conflict [OF assms(1,2) g False] assms(3) conflict [OF g False]
      show ?thesis by simp
    qed
  qed
qed

lemma aggregate_effects:
  "aggregate ri incl currentPR files prs ws st = Some (r, st') \<Longrightarrow>
   outputs st' = outputs st \<and> failed st' = failed st \<and> summaries st' = summaries st"
proof (induction prs arbitrary: ws st)
  case Nil
  then show ?case by simp
next
  case (Cons pr prs)
  show ?case
  proof (cases "number pr = number currentPR \<or> (draft pr \<and> \<not> incl)")
    case True
    with Cons show ?thesis by (simp only: aggregate_skip)
  next
    case False
    then have f: "number pr \<noteq> number currentPR" "draft pr \<longrightarrow> incl" by auto
    from f Cons.prems show ?thesis
    proof (cases rule: aggregate_fetch_cases)
      case (threw e)
      from getPRFiles_effects [OF threw(1)] show ?thesis by simp
    next
      case (empty other st1)
      from Cons.IH [OF empty(3)] getPRFiles_effects [OF empty(1)] show ?thesis by simp
    next
      case (conflict other st1)
      from Cons.IH [OF conflict(3)] getPRFiles_effects [OF conflict(1)] show ?thesis
        by (simp add: core_warning_def)
    qed
  qed
qed

lemma aggregate_records:
  "aggregate ri incl currentPR files prs ws st = Some (Inr ws', st') \<Longrightarrow>
   \<exists>new. ws' = ws @ new
     \<and> (\<forall>w \<in> set new. prNumber w \<noteq> number currentPR \<and> conflictingFiles w \<noteq> []
           \<and> (\<exists>pr \<in> set prs. number pr = prNumber w \<and> title pr = prTitle w \<and> (draft pr \<longrightarrow> incl)))"
proof (induction prs arbitrary: ws st)
  case Nil
  then show ?case by simp
next
  case (Cons pr prs)
  show ?case
  proof (cases "number pr = number currentPR \<or> (draft pr \<and> \<not> incl)")
    case True
    with Cons.prems have "aggregate ri incl currentPR files prs ws st = Some (Inr ws', st')"
      by (simp only: aggregate_skip)
    from Cons.IH [OF this] show ?thesis by auto
  next
    case False
    then have f: "number pr \<noteq> number currentPR" "draft pr \<longrightarrow> incl" by auto
    from f Cons.prems show ?thesis
    proof (cases rule: aggregate_fetch_cases)
      case (threw e)
      then show ?thesis by simp
    next
      case (empty other st1)
      from Cons.IH [OF empty(3)] show ?thesis by auto
    next
      case (conflict other st1)
      let ?w = "\<lparr>prNumber = number pr, prTitle = title pr,
                  conflictingFiles = findConflictingFiles files other\<rparr>"
      from Cons.IH [OF conflict(3)] obtain new where new: "ws' = (ws @ [?w]) @ new"
        "\<forall>w \<in> set new. prNumber w \<noteq> number currentPR \<and> conflictingFiles w \<noteq> []
           \<and> (\<exists>pr \<in> set prs. number pr = prNumber w \<and> title pr = prTitle w \<and> (draft pr \<longrightarrow> incl))"
        by blast
      have "\<forall>w \<in> set (?w # new). prNumber w \<noteq> number currentPR \<and> conflictingFiles w \<noteq> []
           \<and> (\<exists>p \<in> set (pr # prs). number p = prNumber w \<and> title p = prTitle w \<and> (draft p \<longrightarrow> incl))"
        using new(2) f conflict(2) by auto
      moreover have "ws' = ws @ ?w # new" using new(1) by simp
      ultimately show ?thesis by blast
    qed
  qed
qed


lemma aggregate_other_state:
  "aggregate ri incl currentPR files prs ws st = Some (r, st') \<Longrightarrow>
   \<exists>st0'. aggregate ri incl currentPR files prs ws st0 = Some (r, st0')"
proof (induction prs arbitrary: ws st st0)
  case Nil
  then show ?case by simp
next
  case (Cons pr prs)
  show ?case
  proof (cases "number pr = number currentPR \<or> (draft pr \<and> \<not> incl)")
    case True
    with Cons.prems have "aggregate ri incl currentPR files prs ws st = Some (r, st')"
      by (simp only: aggregate_skip)
    from Cons.IH [OF this, of st0] True show ?thesis by (simp only: aggregate_skip)
  next
    case False
    then have f: "number pr \<noteq> number currentPR" "draft pr \<longrightarrow> incl" by auto
    from f Cons.prems show ?thesis
    proof (cases rule: aggregate_fetch_cases)
      case (threw e)
      from getPRFiles_other_state [OF threw(1), of st0] obtain s where
        "getPRFiles ri (number pr) st0 = Some (Inl e, s)" by blast
      from aggregate_fetch_Inl [OF f this] threw(2) show ?thesis by simp
    next
      case (empty other st1)
      from getPRFiles_other_state [OF empty(1), of st0] obtain s where
        "getPRFiles ri (number pr) st0 = Some (Inr other, s)" by blast
      from aggregate_fetch_empty [OF f this empty(2)] Cons.IH [OF empty(3), of s]
      show ?thesis by simp
    next
      case (conflict other st1)
      from getPRFiles_other_state [OF conflict(1), of st0] obtain s where
        "getPRFiles ri (number pr) st0 = Some (Inr other, s)" by blast
      from aggregate_fetch_conflict [OF f this conflict(2)] Cons.IH [OF conflict(3)]
      show ?thesis by simp
    qed
  qed
qed

lemma aggregate_warnings:
  "aggregate ri incl currentPR files prs ws st = Some (Inr ws', st') \<Longrightarrow>
   \<exists>new. ws' = ws @ new
     \<and> warnings st' = warnings st @
          map (\<lambda>w. ''PR #'' @ show_int (prNumber w) @ '' may have conflicts: ''
                 @ show_nat (length (conflictingFiles w)) @ '' overlapping files'') new"
proof (induction prs arbitrary: ws st)
  case Nil
  then show ?case by simp
next
  case (Cons pr prs)
  show ?case
  proof (cases "number pr = number currentPR \<or> (draft pr \<and> \<not> incl)")
    case True
    with Cons.prems have "aggregate ri incl currentPR files prs ws st = Some (Inr ws', st')"
      by (simp only: aggregate_skip)
    from Cons.IH [OF this] show ?thesis .
  next
    case False
    then have f: "number pr \<noteq> number currentPR" "draft pr \<longrightarrow> incl" by auto
    from f Cons.prems show ?thesis
    proof (cases rule: aggregate_fetch_cases)
      case (threw e)
      then show ?thesis by simp
    next
      case (empty other st1)
      from Cons.IH [OF empty(3)] getPRFiles_effects [OF empty(1)] show ?thesis by simp
    next
      case (conflict other st1)
      let ?w = "\<lparr>prNumber = number pr, prTitle = title pr,
                  conflictingFiles = findConflictingFiles files other\<rparr>"
      let ?warn = "\<lambda>w. ''PR #'' @ show_int (prNumber w) @ '' may have conflicts: ''
                 @ show_nat (length (conflictingFiles w)) @ '' overlapping files''"
      from Cons.IH [OF conflict(3)] obtain new where new: "ws' = (ws @ [?w]) @ new"
        "warnings st' = warnings (core_warning (?warn ?w) st1) @ map ?warn new"
        by auto
      have "warnings st' = warnings st @ map ?warn (?w # new)"
        using new(2) getPRFiles_effects [OF conflict(1)] by (simp add: core_warning_def)
      moreover have "ws' = ws @ ?w # new" using new(1) by simp
      ultimately show ?thesis by blast
    qed
  qed
qed

lemma aggregate_throws:
  assumes "\<forall>p \<in> set before. number p = number currentPR \<or> (draft p \<and> \<not> incl)
             \<or> (\<exists>fs s s'. getPRFiles ri (number p) s = Some (Inr fs, s'))"
    and "number pr \<noteq> number currentPR" "draft pr \<longrightarrow> incl"
    and "getPRFiles ri (number pr) s0 = Some (Inl e, s0')"
  shows "\<exists>pushed st'. aggregate ri incl currentPR files (before @ pr # after) ws st
           = Some (Inl (e, pushed), st')"
  using assms(1)
proof (induction before arbitrary: ws st)
  case Nil
  from getPRFiles_other_state [OF assms(4), of st] obtain s where
    "getPRFiles ri (number pr) st = Some (Inl e, s)" by blast
  from aggregate_fetch_Inl [OF assms(2,3) this] show ?case by simp
next
  case (Cons p before)
  then have rest: "\<forall>p \<in> set before. number p = number currentPR \<or> (draft p \<and> \<not> incl)
             \<or> (\<exists>fs s s'. getPRFiles ri (number p) s = Some (Inr fs, s'))"
    by simp
  show ?case
  proof (cases "number p = number currentPR \<or> (draft p \<and> \<not> incl)")
    case True
    from Cons.IH [OF rest, of ws st] aggregate_skip [OF True] show ?thesis by simp
  next
    case False
    then have f: "number p \<noteq> number currentPR" "draft p \<longrightarrow> incl" by auto
    from Cons.prems False obtain fs s s' where "getPRFiles ri (number p) s = Some (Inr fs, s')"
      by auto
    from getPRFiles_other_state [OF this, of st] obtain st1 where
      g: "getPRFiles ri (number p) st = Some (Inr fs, st1)" by blast
    show ?thesis
    proof (cases "findConflictingFiles files fs = []")
      case True
      from aggregate_fetch_empty [OF f g True] Cons.IH [OF rest, of ws st1] show ?thesis by simp
    next
      case False
      from aggregate_fetch_conflict [OF f g False] Cons.IH [OF rest] show ?thesis by simp
    qed
  qed
qed












section \<open>The example contexts, run\<close>

text \<open>A fetch that ends with its first page.\<close>

lemma getPRFiles_Inl:
  "pulls_listFiles (octokit ri) prNum 100 1 = Inl e \<Longrightarrow>
   getPRFiles ri prNum st = Some (Inl e, send (ListFiles (owner ri) (repo ri) prNum 100 1) st)"
  unfolding getPRFiles_def using getPRFiles_loop_Inl [of ri prNum 1 e "[]" st]
  by (simp add: perPage_def)

lemma getPRFiles_one_page:
  "pulls_listFiles (octokit ri) prNum 100 1 = Inr data \<Longrightarrow> length data < 100 \<Longrightarrow>
   getPRFiles ri prNum st = Some (Inr data, send (ListFiles (owner ri) (repo ri) prNum 100 1) st)"
  unfolding getPRFiles_def using getPRFiles_loop_last [of ri prNum 1 data "[]" st]
  by (simp add: perPage_def)

text \<open>The numbers that the examples print.\<close>

lemma example_numbers:
  "show_int 1 = ''1''" "show_int 2 = ''2''" "show_int 4 = ''4''" "show_int 7 = ''7''"
  "show_nat 1 = ''1''" "show_nat (Suc 0) = ''1''" "show_nat 2 = ''2''" "show_nat 12 = ''12''"
  by (simp_all add: show_int_def show_nat.simps digit_def)

text \<open>The reads of the example contexts.\<close>

lemma example_read_inputs:
  "read_inputs (example_context incl post client pr) =
     (Inr (incl, post, \<lparr>octokit = client, owner = ''o'', repo = ''r''\<rparr>),
      core_debug (''Include draft PRs: '' @ show_bool incl) no_effects)"
  by (simp add: read_inputs_def example_context_def)

lemma example_pull_request: "pull_request (example_context incl post client pr) = pr"
  by (simp add: example_context_def)

text \<open>The start of a run in the context of the four pull requests.\<close>

lemma draft_example_start:
  "read_inputs (draft_context incl post d p) =
     (Inr (incl, post, draft_repo d p), core_debug (''Include draft PRs: '' @ show_bool incl) no_effects)
   \<and> pull_request (draft_context incl post d p) = Some current_pr
   \<and> getPRFiles (draft_repo d p) (number current_pr) no_effects
       = Some (Inr shared_ts, send (ListFiles ''o'' ''r'' 1 100 1) no_effects)
   \<and> pulls_list (octokit (draft_repo d p)) 100 = Inr open_prs"
  by (simp add: draft_context_def draft_repo_def example_read_inputs example_pull_request
        draft_octokit_def current_pr_def shared_ts_def getPRFiles_one_page)

lemma uniform_example_start:
  "read_inputs (uniform_context files listing) =
     (Inr (False, False, uniform_repo files listing),
      core_debug (''Include draft PRs: '' @ show_bool False) no_effects)
   \<and> pull_request (uniform_context files listing) = Some current_pr
   \<and> pulls_list (octokit (uniform_repo files listing)) 100 = listing
   \<and> pulls_listFiles (octokit (uniform_repo files listing)) n 100 page = files"
  by (simp add: uniform_context_def uniform_repo_def example_read_inputs example_pull_request
        uniform_octokit_def)

text \<open>The loop in that context: the draft skipped, fetched, and throwing.\<close>

lemma draft_example_skipped:
  "\<exists>s. aggregate (draft_repo d p) False current_pr shared_ts open_prs [] no_effects
       = Some (Inr [overlap 2 ''Other PR'', overlap 4 ''Late PR''], s)"
  by (simp add: draft_repo_def draft_octokit_def current_pr_def shared_ts_def open_prs_def
        overlap_def getPRFiles_one_page findConflictingFiles_def Let_def)






section \<open>Properties of the run\<close>

text \<open>What the reporting part adds to the effects.\<close>

lemma report_outputs:
  "outputs (report ri post currentPR ws st) = outputs st @
     (if ws \<noteq> []
      then [(''has-conflicts'', OutString ''true''), (''conflict-count'', OutNumber (length ws)),
            (''conflicts'', OutJSON ws)]
      else [(''has-conflicts'', OutString ''false''), (''conflict-count'', OutNumber 0)])"
  by (simp add: report_def Let_def postConflictComment_def post_catch_def core_setOutput_def
        core_info_def core_warning_def summary_write_def send_def
      split: sum.split thrown.split)

lemma report_failed:
  "failed (report ri post currentPR ws st) = failed st"
  by (simp add: report_def Let_def postConflictComment_def post_catch_def core_setOutput_def
        core_info_def core_warning_def summary_write_def send_def
      split: sum.split thrown.split)

lemma report_summaries:
  "summaries (report ri post currentPR ws st) =
     summaries st @ (if ws \<noteq> [] then [generateSummary ws] else [])"
  by (simp add: report_def Let_def postConflictComment_def post_catch_def core_setOutput_def
        core_info_def core_warning_def summary_write_def send_def
      split: sum.split thrown.split)

lemma report_requests:
  "requests (report ri post currentPR ws st) =
     requests st @ (if ws \<noteq> [] \<and> post
                    then [CreateComment (owner ri) (repo ri) (number currentPR) (generateSummary ws)]
                    else [])"
  by (simp add: report_def Let_def postConflictComment_def post_catch_def core_setOutput_def
        core_info_def core_warning_def summary_write_def send_def
      split: sum.split thrown.split)

lemma report_warnings:
  "warnings (report ri post currentPR ws st) =
     warnings st @
       (if ws \<noteq> [] \<and> post
        then (case issues_createComment (octokit ri) (number currentPR) (generateSummary ws) of
                Inl (Error m) \<Rightarrow>
                  [if str_includes m ''Resource not accessible by integration''
                   then permission_warning else ''Failed to post comment: '' @ m]
              | Inl (NonError v) \<Rightarrow> []
              | Inr u \<Rightarrow> [])
        else [])"
  by (simp add: report_def Let_def postConflictComment_def post_catch_def core_setOutput_def
        core_info_def core_warning_def summary_write_def send_def
      split: sum.split thrown.split)

text \<open>The reads at the start set nothing and send nothing.\<close>

lemma read_inputs_effects:
  assumes "read_inputs ctx = (r, st0)"
  shows "outputs st0 = [] \<and> failed st0 = None \<and> summaries st0 = [] \<and> warnings st0 = []
       \<and> requests st0 = []"
proof -
  have "st0 = no_effects \<or> (\<exists>m. st0 = core_debug m no_effects)"
    using assms
    by (auto simp: read_inputs_def Let_def split: sum.splits prod.splits)
  then show ?thesis
    by (auto simp: core_debug_def no_effects_def)
qed

text \<open>The run by the way it ends, going forward from the answers of the service.\<close>

lemma run_try_input_error:
  "read_inputs ctx = (Inl e, st0) \<Longrightarrow> run_try ctx = Some (Inl e, st0)"
  by (simp add: run_try_def)

lemma run_try_no_pull_request:
  "read_inputs ctx = (Inr (incl, post, ri), st0) \<Longrightarrow> pull_request ctx = None \<Longrightarrow>
   run_try ctx = Some (Inr (),
     core_setFailed ''This action must be triggered by a pull_request event'' st0)"
  by (simp add: run_try_def)

lemma run_try_completes:
  assumes "read_inputs ctx = (Inr (incl, post, ri), st0)"
    and "pull_request ctx = Some cur"
    and "getPRFiles ri (number cur) s1 = Some (Inr files, s1')"
    and "pulls_list (octokit ri) 100 = Inr prs"
    and "aggregate ri incl cur files prs [] s2 = Some (Inr ws, s2')"
  shows "\<exists>st. run_try ctx = Some (Inr (), report ri post cur ws st)
     \<and> outputs st = [] \<and> failed st = None \<and> summaries st = []
     \<and> warnings st = map (\<lambda>w. ''PR #'' @ show_int (prNumber w) @ '' may have conflicts: ''
                 @ show_nat (length (conflictingFiles w)) @ '' overlapping files'') ws"
proof -
  let ?st1 = "core_info (''Checking PR #'' @ show_int (number cur) @ '' for potential conflicts...'')
      st0"
  from getPRFiles_other_state [OF assms(3), of ?st1] obtain st2 where
    fetch: "getPRFiles ri (number cur) ?st1 = Some (Inr files, st2)" by blast
  let ?st4 = "send (ListPulls (owner ri) (repo ri) 100)
      (core_info (''Current PR #'' @ show_int (number cur) @ '' modifies ''
         @ show_nat (length files) @ '' files'') st2)"
  from aggregate_other_state [OF assms(5), of ?st4] obtain st5 where
    loop: "aggregate ri incl cur files prs [] ?st4 = Some (Inr ws, st5)"
    by blast
  have e4: "outputs ?st4 = [] \<and> failed ?st4 = None \<and> summaries ?st4 = [] \<and> warnings ?st4 = []"
    using getPRFiles_effects [OF fetch] read_inputs_effects [OF assms(1)]
    by (simp add: send_def core_info_def)
  have "outputs st5 = [] \<and> failed st5 = None \<and> summaries st5 = []"
    using aggregate_effects [OF loop] e4 by simp
  moreover have "warnings st5 = map (\<lambda>w. ''PR #'' @ show_int (prNumber w) @ '' may have conflicts: ''
                 @ show_nat (length (conflictingFiles w)) @ '' overlapping files'') ws"
    using aggregate_warnings [OF loop] e4 by simp
  moreover have "run_try ctx = Some (Inr (), report ri post cur ws st5)"
    using assms(1,2,4) fetch loop by (simp add: run_try_def Let_def)
  ultimately show ?thesis by blast
qed

lemma run_try_throws:
  assumes "read_inputs ctx = (Inr (incl, post, ri), st0)"
    and "pull_request ctx = Some cur"
    and "getPRFiles ri (number cur) s1 = Some (Inl e, s1')
       \<or> (\<exists>files. getPRFiles ri (number cur) s1 = Some (Inr files, s1')
            \<and> (pulls_list (octokit ri) 100 = Inl e
               \<or> (\<exists>prs pushed. pulls_list (octokit ri) 100 = Inr prs
                    \<and> aggregate ri incl cur files prs [] s2 = Some (Inl (e, pushed), s2'))))"
  shows "\<exists>st. run_try ctx = Some (Inl e, st)
     \<and> outputs st = [] \<and> failed st = None \<and> summaries st = []"
proof -
  let ?st1 = "core_info (''Checking PR #'' @ show_int (number cur) @ '' for potential conflicts...'')
      st0"
  have e1: "outputs ?st1 = [] \<and> failed ?st1 = None \<and> summaries ?st1 = []"
    using read_inputs_effects [OF assms(1)] by (simp add: core_info_def)
  from assms(3) consider
    (fetch) "getPRFiles ri (number cur) s1 = Some (Inl e, s1')"
  | (list) files where "getPRFiles ri (number cur) s1 = Some (Inr files, s1')"
      "pulls_list (octokit ri) 100 = Inl e"
  | (loop) files prs pushed where "getPRFiles ri (number cur) s1 = Some (Inr files, s1')"
      "pulls_list (octokit ri) 100 = Inr prs"
      "aggregate ri incl cur files prs [] s2 = Some (Inl (e, pushed), s2')"
    by blast
  then show ?thesis
  proof cases
    case fetch
    from getPRFiles_other_state [OF fetch, of ?st1] obtain st2 where
      f: "getPRFiles ri (number cur) ?st1 = Some (Inl e, st2)" by blast
    have "run_try ctx = Some (Inl e, st2)"
      using assms(1,2) f by (simp add: run_try_def Let_def)
    with getPRFiles_effects [OF f] e1 show ?thesis by simp
  next
    case list
    from getPRFiles_other_state [OF list(1), of ?st1] obtain st2 where
      f: "getPRFiles ri (number cur) ?st1 = Some (Inr files, st2)" by blast
    let ?st4 = "send (ListPulls (owner ri) (repo ri) 100)
      (core_info (''Current PR #'' @ show_int (number cur) @ '' modifies ''
         @ show_nat (length files) @ '' files'') st2)"
    have "run_try ctx = Some (Inl e, ?st4)"
      using assms(1,2) f list(2) by (simp add: run_try_def Let_def)
    moreover have "outputs ?st4 = [] \<and> failed ?st4 = None \<and> summaries ?st4 = []"
      using getPRFiles_effects [OF f] e1 by (simp add: send_def core_info_def)
    ultimately show ?thesis by blast
  next
    case loop
    from getPRFiles_other_state [OF loop(1), of ?st1] obtain st2 where
      f: "getPRFiles ri (number cur) ?st1 = Some (Inr files, st2)" by blast
    let ?st4 = "send (ListPulls (owner ri) (repo ri) 100)
      (core_info (''Current PR #'' @ show_int (number cur) @ '' modifies ''
         @ show_nat (length files) @ '' files'') st2)"
    from aggregate_other_state [OF loop(3), of ?st4] obtain st5 where
      l: "aggregate ri incl cur files prs [] ?st4 = Some (Inl (e, pushed), st5)"
      by blast
    have e4: "outputs ?st4 = [] \<and> failed ?st4 = None \<and> summaries ?st4 = []"
      using getPRFiles_effects [OF f] e1 by (simp add: send_def core_info_def)
    have "run_try ctx = Some (Inl e, st5)"
      using assms(1,2) f loop(2) l by (simp add: run_try_def Let_def)
    with aggregate_effects [OF l] e4 show ?thesis by simp
  qed
qed

text \<open>The run by the way it ended, going back from its result.\<close>

lemma run_try_cases:
  assumes "run_try ctx = Some (r, st)"
  obtains (input_error) e where "read_inputs ctx = (Inl e, st)" "r = Inl e"
  | (no_pull_request) incl post ri st0 where "read_inputs ctx = (Inr (incl, post, ri), st0)"
      "pull_request ctx = None" "r = Inr ()"
      "st = core_setFailed ''This action must be triggered by a pull_request event'' st0"
  | (threw) incl post ri st0 cur e where "read_inputs ctx = (Inr (incl, post, ri), st0)"
      "pull_request ctx = Some cur" "r = Inl e"
      "outputs st = []" "failed st = None" "summaries st = []"
  | (completed) incl post ri st0 cur files prs ws s1 s1' s2 s2' st5 where
      "read_inputs ctx = (Inr (incl, post, ri), st0)" "pull_request ctx = Some cur"
      "getPRFiles ri (number cur) s1 = Some (Inr files, s1')"
      "pulls_list (octokit ri) 100 = Inr prs"
      "aggregate ri incl cur files prs [] s2 = Some (Inr ws, s2')"
      "r = Inr ()" "st = report ri post cur ws st5"
      "outputs st5 = []" "failed st5 = None" "summaries st5 = []"
      "warnings st5 = map (\<lambda>w. ''PR #'' @ show_int (prNumber w) @ '' may have conflicts: ''
                 @ show_nat (length (conflictingFiles w)) @ '' overlapping files'') ws"
proof -
  obtain r0 st0 where read: "read_inputs ctx = (r0, st0)" by (cases "read_inputs ctx")
  show ?thesis
  proof (cases r0)
    case (Inl e)
    with read have i: "read_inputs ctx = (Inl e, st0)" by simp
    from run_try_input_error [OF i] assms input_error [of e] i show ?thesis by simp
  next
    case (Inr vals)
    obtain incl post ri where vals: "vals = (incl, post, ri)" by (cases vals)
    with read Inr have i: "read_inputs ctx = (Inr (incl, post, ri), st0)" by simp
    show ?thesis
    proof (cases "pull_request ctx")
      case None
      from run_try_no_pull_request [OF i None] assms no_pull_request [OF i None] show ?thesis by simp
    next
      case (Some cur)
      let ?st1 = "core_info (''Checking PR #'' @ show_int (number cur) @ '' for potential conflicts...'')
          st0"
      show ?thesis
      proof (cases "getPRFiles ri (number cur) ?st1")
        case None
        with i Some assms show ?thesis by (simp add: run_try_def Let_def)
      next
        case fetched: (Some res)
        obtain r1 st2 where res: "res = (r1, st2)" by (cases res)
        show ?thesis
        proof (cases r1)
          case (Inl e)
          with fetched res have f: "getPRFiles ri (number cur) ?st1 = Some (Inl e, st2)" by simp
          from run_try_throws [OF i Some, of ?st1 e st2] f assms threw [OF i Some, of e]
          show ?thesis by auto
        next
          case (Inr files)
          with fetched res have f: "getPRFiles ri (number cur) ?st1 = Some (Inr files, st2)" by simp
          let ?st4 = "send (ListPulls (owner ri) (repo ri) 100)
            (core_info (''Current PR #'' @ show_int (number cur) @ '' modifies ''
               @ show_nat (length files) @ '' files'') st2)"
          show ?thesis
          proof (cases "pulls_list (octokit ri) 100")
            case (Inl e)
            from run_try_throws [OF i Some, of ?st1 e st2] f Inl assms threw [OF i Some, of e]
            show ?thesis by auto
          next
            case listed: (Inr prs)
            show ?thesis
            proof (cases "aggregate ri incl cur files prs [] ?st4")
              case None
              with i Some f listed assms show ?thesis by (simp add: run_try_def Let_def)
            next
              case looped: (Some res2)
              obtain r2 st5 where res2: "res2 = (r2, st5)" by (cases res2)
              show ?thesis
              proof (cases r2)
                case (Inl thrown_with)
                obtain e pushed where tw: "thrown_with = (e, pushed)" by (cases thrown_with)
                with Inl looped res2 have l: "aggregate ri incl cur files prs [] ?st4
                    = Some (Inl (e, pushed), st5)" by simp
                from run_try_throws [OF i Some, of ?st1 e st2 ?st4 st5] f listed l assms
                  threw [OF i Some, of e]
                show ?thesis by auto
              next
                case (Inr ws)
                with looped res2 have l: "aggregate ri incl cur files prs [] ?st4
                    = Some (Inr ws, st5)" by simp
                from run_try_completes [OF i Some f listed l] assms
                  completed [OF i Some f listed l]
                show ?thesis by auto
              qed
            qed
          qed
        qed
      qed
    qed
  qed
qed

text \<open>The outer \<open>catch\<close> applied to the result of the \<open>try\<close> block.\<close>

lemma run_of_try:
  "run_try ctx = Some (r, st) \<Longrightarrow>
   run ctx = Some (case r of Inl (Error m) \<Rightarrow> core_setFailed m st | Inl (NonError v) \<Rightarrow> st | Inr u \<Rightarrow> st)"
  by (simp add: run_def run_catch_def split: sum.split thrown.split)

section \<open>The summary document\<close>

lemma summary_files_concat:
  "summary_files files summary = summary @ concat (map (\<lambda>file. ''- `'' @ file @ ''`'' @ [CHR 0x0A]) files)"
  by (induction files arbitrary: summary) (simp_all add: summary_file_def)

lemma summary_warning_section:
  "summary_warning w summary = summary @ summary_section w"
proof -
  have "take (min (length (conflictingFiles w)) 10) (conflictingFiles w) = take 10 (conflictingFiles w)"
    by (cases "length (conflictingFiles w) \<le> 10") (simp_all add: min_def)
  then show ?thesis
    by (simp add: summary_warning_def summary_section_def Let_def summary_files_concat)
qed

lemma summary_warnings_concat:
  "summary_warnings ws summary = summary @ concat (map summary_section ws)"
  by (induction ws arbitrary: summary) (simp_all add: summary_warning_section)

lemma generateSummary_document: "generateSummary ws = summary_document ws"
  by (simp add: generateSummary_def summary_document_def summary_note_def Let_def
        summary_warnings_concat)

section \<open>The end of the run\<close>

text \<open>What a run that ended has set and written.\<close>

lemma run_reported:
  assumes "run ctx = Some st"
  shows "(outputs st = [] \<and> summaries st = [])
     \<or> (\<exists>ws. failed st = None
           \<and> outputs st =
               (if ws \<noteq> []
                then [(''has-conflicts'', OutString ''true''), (''conflict-count'', OutNumber (length ws)),
                      (''conflicts'', OutJSON ws)]
                else [(''has-conflicts'', OutString ''false''), (''conflict-count'', OutNumber 0)])
           \<and> summaries st = (if ws \<noteq> [] then [generateSummary ws] else []))"
proof -
  from assms obtain r st0 where t: "run_try ctx = Some (r, st0)"
    by (cases "run_try ctx") (auto simp: run_def)
  from run_of_try [OF t] assms have st:
    "st = (case r of Inl (Error m) \<Rightarrow> core_setFailed m st0 | Inl (NonError v) \<Rightarrow> st0 | Inr u \<Rightarrow> st0)"
    by simp
  from t show ?thesis
  proof (cases rule: run_try_cases)
    case (input_error e)
    with st read_inputs_effects [OF input_error(1)] show ?thesis
      by (cases e) (simp_all add: core_setFailed_def)
  next
    case (no_pull_request incl post ri s0)
    with st read_inputs_effects [OF no_pull_request(1)] show ?thesis
      by (simp add: core_setFailed_def)
  next
    case (threw incl post ri s0 cur e)
    with st show ?thesis by (cases e) (simp_all add: core_setFailed_def)
  next
    case (completed incl post ri s0 cur files prs ws s1 s1' s2 s2' st5)
    with st have "st = report ri post cur ws st5" by simp
    with completed(8,9,10) have "failed st = None
           \<and> outputs st =
               (if ws \<noteq> []
                then [(''has-conflicts'', OutString ''true''), (''conflict-count'', OutNumber (length ws)),
                      (''conflicts'', OutJSON ws)]
                else [(''has-conflicts'', OutString ''false''), (''conflict-count'', OutNumber 0)])
           \<and> summaries st = (if ws \<noteq> [] then [generateSummary ws] else [])"
      by (simp add: report_outputs report_failed report_summaries)
    then show ?thesis by blast
  qed
qed

lemma run_completes:
  assumes "read_inputs ctx = (Inr (incl, post, ri), st0)"
    and "pull_request ctx = Some cur"
    and "getPRFiles ri (number cur) s1 = Some (Inr files, s1')"
    and "pulls_list (octokit ri) 100 = Inr prs"
    and "aggregate ri incl cur files prs [] s2 = Some (Inr ws, s2')"
  shows "\<exists>st. run ctx = Some st \<and> failed st = None
     \<and> outputs st =
         (if ws \<noteq> []
          then [(''has-conflicts'', OutString ''true''), (''conflict-count'', OutNumber (length ws)),
                (''conflicts'', OutJSON ws)]
          else [(''has-conflicts'', OutString ''false''), (''conflict-count'', OutNumber 0)])
     \<and> summaries st = (if ws \<noteq> [] then [generateSummary ws] else [])"
proof -
  from run_try_completes [OF assms] obtain st5 where st5:
    "run_try ctx = Some (Inr (), report ri post cur ws st5)"
    "outputs st5 = []" "failed st5 = None" "summaries st5 = []"
    by blast
  from run_of_try [OF st5(1)] have "run ctx = Some (report ri post cur ws st5)"
    by simp
  with st5(2,3,4) show ?thesis
    by (simp add: report_outputs report_failed report_summaries)
qed

section \<open>Failure of the run\<close>




section \<open>Failure of the comment\<close>

text \<open>\<open>str_includes\<close> is the substring test.\<close>

lemma str_includes_iff: "str_includes s sub \<longleftrightarrow> (\<exists>pre post. s = pre @ sub @ post)"
proof (induction s)
  case Nil
  show ?case by simp
next
  case (Cons c cs)
  show ?case
  proof
    assume "str_includes (c # cs) sub"
    then consider "prefix sub (c # cs)" | "str_includes cs sub" by auto
    then show "\<exists>pre post. c # cs = pre @ sub @ post"
    proof cases
      case 1
      then obtain post where "c # cs = sub @ post" by (auto simp: prefix_def)
      then have "c # cs = [] @ sub @ post" by simp
      then show ?thesis by blast
    next
      case 2
      with Cons obtain pre post where "cs = pre @ sub @ post" by blast
      then have "c # cs = (c # pre) @ sub @ post" by simp
      then show ?thesis by blast
    qed
  next
    assume "\<exists>pre post. c # cs = pre @ sub @ post"
    then obtain pre post where eq: "c # cs = pre @ sub @ post" by blast
    show "str_includes (c # cs) sub"
    proof (cases pre)
      case Nil
      with eq have "prefix sub (c # cs)" by (simp add: prefix_def)
      then show ?thesis by simp
    next
      case (Cons d pre')
      with eq have "cs = pre' @ sub @ post" by simp
      with Cons.IH have "str_includes cs sub" by blast
      then show ?thesis by simp
    qed
  qed
qed

text \<open>
  Claim C6. In a run that reaches the posting of the comment (the reads at the start
  succeed, records were produced and \<open>post-comments\<close> is read as true) and in which
  the posting throws an \<open>Error\<close> with message \<open>m\<close>: the run ends without \<open>setFailed\<close>, the three conflict outputs are as set
  before the posting, and exactly one warning follows those of the loop; it is the fixed
  text naming the permission \<open>"pull-requests: write"\<close> when \<open>m\<close> contains
  \<open>Resource not accessible by integration\<close>, and \<open>Failed to post comment: m\<close>
  otherwise.
\<close>

theorem comment_failure_is_warning:
  "(read_inputs ctx = (Inr (incl, post, ri), st0) \<and> pull_request ctx = Some cur
      \<and> getPRFiles ri (number cur) s1 = Some (Inr files, s1')
      \<and> pulls_list (octokit ri) 100 = Inr prs
      \<and> aggregate ri incl cur files prs [] s2 = Some (Inr ws, s2')
      \<and> ws \<noteq> [] \<and> post
      \<and> issues_createComment (octokit ri) (number cur) (generateSummary ws) = Inl (Error m)
    \<longrightarrow> (\<exists>st. run ctx = Some st \<and> failed st = None
          \<and> outputs st = [(''has-conflicts'', OutString ''true''),
                           (''conflict-count'', OutNumber (length ws)),
                           (''conflicts'', OutJSON ws)]
          \<and> last (requests st) = CreateComment (owner ri) (repo ri)
                                     (number cur) (generateSummary ws)
          \<and> warnings st =
              map (\<lambda>w. ''PR #'' @ show_int (prNumber w) @ '' may have conflicts: ''
                     @ show_nat (length (conflictingFiles w)) @ '' overlapping files'') ws
              @ [if str_includes m ''Resource not accessible by integration''
                 then permission_warning else ''Failed to post comment: '' @ m]))
   \<and> (\<exists>pre suf. permission_warning = pre @ [CHR 0x22] @ ''pull-requests: write'' @ [CHR 0x22] @ suf)
   \<and> (str_includes m sub \<longleftrightarrow> (\<exists>pre suf. m = pre @ sub @ suf))"
proof (intro conjI impI)
  assume h: "read_inputs ctx = (Inr (incl, post, ri), st0) \<and> pull_request ctx = Some cur
      \<and> getPRFiles ri (number cur) s1 = Some (Inr files, s1')
      \<and> pulls_list (octokit ri) 100 = Inr prs
      \<and> aggregate ri incl cur files prs [] s2 = Some (Inr ws, s2')
      \<and> ws \<noteq> [] \<and> post
      \<and> issues_createComment (octokit ri) (number cur) (generateSummary ws) = Inl (Error m)"
  then have "\<exists>st. run_try ctx = Some (Inr (), report ri post cur ws st)
     \<and> outputs st = [] \<and> failed st = None \<and> summaries st = []
     \<and> warnings st = map (\<lambda>w. ''PR #'' @ show_int (prNumber w) @ '' may have conflicts: ''
                 @ show_nat (length (conflictingFiles w)) @ '' overlapping files'') ws"
    by (intro run_try_completes [of ctx incl post ri st0 cur s1 files s1' prs s2 ws s2']) simp_all
  then obtain st5 where st5:
    "run_try ctx = Some (Inr (), report ri post cur ws st5)"
    "outputs st5 = []" "failed st5 = None"
    "warnings st5 = map (\<lambda>w. ''PR #'' @ show_int (prNumber w) @ '' may have conflicts: ''
                 @ show_nat (length (conflictingFiles w)) @ '' overlapping files'') ws"
    by blast
  let ?st = "report ri post cur ws st5"
  have "run ctx = Some ?st"
    using run_of_try [OF st5(1)] by simp
  moreover have "failed ?st = None"
    using st5(3) by (simp add: report_failed)
  moreover have "outputs ?st = [(''has-conflicts'', OutString ''true''),
                           (''conflict-count'', OutNumber (length ws)),
                           (''conflicts'', OutJSON ws)]"
    using st5(2) h by (simp add: report_outputs)
  moreover have "last (requests ?st) = CreateComment (owner ri) (repo ri)
                                     (number cur) (generateSummary ws)"
    using h by (simp add: report_requests)
  moreover have "warnings ?st =
              map (\<lambda>w. ''PR #'' @ show_int (prNumber w) @ '' may have conflicts: ''
                     @ show_nat (length (conflictingFiles w)) @ '' overlapping files'') ws
              @ [if str_includes m ''Resource not accessible by integration''
                 then permission_warning else ''Failed to post comment: '' @ m]"
    using st5(4) h by (simp add: report_warnings)
  ultimately show "\<exists>st. run ctx = Some st \<and> failed st = None
          \<and> outputs st = [(''has-conflicts'', OutString ''true''),
                           (''conflict-count'', OutNumber (length ws)),
                           (''conflicts'', OutJSON ws)]
          \<and> last (requests st) = CreateComment (owner ri) (repo ri)
                                     (number cur) (generateSummary ws)
          \<and> warnings st =
              map (\<lambda>w. ''PR #'' @ show_int (prNumber w) @ '' may have conflicts: ''
                     @ show_nat (length (conflictingFiles w)) @ '' overlapping files'') ws
              @ [if str_includes m ''Resource not accessible by integration''
                 then permission_warning else ''Failed to post comment: '' @ m]"
    by blast
next
  have "permission_warning = ''Insufficient permissions to post comment. Add '' @ [CHR 0x22]
      @ ''pull-requests: write'' @ [CHR 0x22] @ '' permission.''"
    by (simp add: permission_warning_def)
  then show "\<exists>pre suf. permission_warning = pre @ [CHR 0x22] @ ''pull-requests: write'' @ [CHR 0x22] @ suf"
    by blast
next
  show "str_includes m sub \<longleftrightarrow> (\<exists>pre suf. m = pre @ sub @ suf)"
    by (rule str_includes_iff)
qed


theorem comment_failure_is_warning_witness:
  "map_option warnings
     (run (draft_context False True (Inr []) (Inl (Error ''403: Resource not accessible by integration''))))
     = Some [''PR #2 may have conflicts: 1 overlapping files'',
             ''PR #4 may have conflicts: 1 overlapping files'', permission_warning]
   \<and> map_option failed
     (run (draft_context False True (Inr []) (Inl (Error ''403: Resource not accessible by integration''))))
     = Some None
   \<and> map_option outputs
     (run (draft_context False True (Inr []) (Inl (Error ''403: Resource not accessible by integration''))))
     = Some [(''has-conflicts'', OutString ''true''), (''conflict-count'', OutNumber 2),
         (''conflicts'', OutJSON [overlap 2 ''Other PR'', overlap 4 ''Late PR''])]
   \<and> map_option warnings (run (draft_context False True (Inr []) (Inl (Error ''Server error''))))
     = Some [''PR #2 may have conflicts: 1 overlapping files'',
             ''PR #4 may have conflicts: 1 overlapping files'', ''Failed to post comment: Server error'']
   \<and> map_option failed (run (draft_context False True (Inr []) (Inl (Error ''Server error''))))
     = Some None"
proof -
  let ?ws = "[overlap 2 ''Other PR'', overlap 4 ''Late PR'']"
  have hyps: "\<exists>s. read_inputs (draft_context False True (Inr []) (Inl (Error m)))
        = (Inr (False, True, draft_repo (Inr []) (Inl (Error m))),
           core_debug (''Include draft PRs: '' @ show_bool False) no_effects)
      \<and> pull_request (draft_context False True (Inr []) (Inl (Error m))) = Some current_pr
      \<and> getPRFiles (draft_repo (Inr []) (Inl (Error m))) (number current_pr) no_effects
          = Some (Inr shared_ts, send (ListFiles ''o'' ''r'' 1 100 1) no_effects)
      \<and> pulls_list (octokit (draft_repo (Inr []) (Inl (Error m)))) 100 = Inr open_prs
      \<and> aggregate (draft_repo (Inr []) (Inl (Error m))) False current_pr shared_ts open_prs []
            no_effects
          = Some (Inr ?ws, s)
      \<and> ?ws \<noteq> [] \<and> True
      \<and> issues_createComment (octokit (draft_repo (Inr []) (Inl (Error m))))
            (number current_pr) (generateSummary ?ws) = Inl (Error m)" for m
    using draft_example_start [of False True "Inr []" "Inl (Error m)"]
      draft_example_skipped [of "Inr []" "Inl (Error m)"]
    by (auto simp: draft_repo_def draft_octokit_def)
  have a: "\<not> str_includes ''Server error'' ''Resource not accessible by integration''"
    by simp
  have b: "str_includes ''403: Resource not accessible by integration''
      ''Resource not accessible by integration''"
    by simp
  let ?m1 = "''Server error''"
  from hyps [of ?m1] obtain s1 where h1:
    "read_inputs (draft_context False True (Inr []) (Inl (Error ?m1)))
        = (Inr (False, True, draft_repo (Inr []) (Inl (Error ?m1))),
           core_debug (''Include draft PRs: '' @ show_bool False) no_effects)
      \<and> pull_request (draft_context False True (Inr []) (Inl (Error ?m1))) = Some current_pr
      \<and> getPRFiles (draft_repo (Inr []) (Inl (Error ?m1))) (number current_pr) no_effects
          = Some (Inr shared_ts, send (ListFiles ''o'' ''r'' 1 100 1) no_effects)
      \<and> pulls_list (octokit (draft_repo (Inr []) (Inl (Error ?m1)))) 100 = Inr open_prs
      \<and> aggregate (draft_repo (Inr []) (Inl (Error ?m1))) False current_pr shared_ts open_prs []
            no_effects
          = Some (Inr ?ws, s1)
      \<and> ?ws \<noteq> [] \<and> True
      \<and> issues_createComment (octokit (draft_repo (Inr []) (Inl (Error ?m1))))
            (number current_pr) (generateSummary ?ws) = Inl (Error ?m1)" ..
  from comment_failure_is_warning [THEN conjunct1, rule_format, OF h1] a
  have 1: "map_option warnings (run (draft_context False True (Inr []) (Inl (Error ''Server error''))))
     = Some [''PR #2 may have conflicts: 1 overlapping files'',
             ''PR #4 may have conflicts: 1 overlapping files'', ''Failed to post comment: Server error'']
   \<and> map_option failed (run (draft_context False True (Inr []) (Inl (Error ''Server error''))))
     = Some None"
    by (auto simp: overlap_def example_numbers)
  let ?m = "''403: Resource not accessible by integration''"
  from hyps [of ?m] obtain s2 where h2:
    "read_inputs (draft_context False True (Inr []) (Inl (Error ?m)))
        = (Inr (False, True, draft_repo (Inr []) (Inl (Error ?m))),
           core_debug (''Include draft PRs: '' @ show_bool False) no_effects)
      \<and> pull_request (draft_context False True (Inr []) (Inl (Error ?m))) = Some current_pr
      \<and> getPRFiles (draft_repo (Inr []) (Inl (Error ?m))) (number current_pr) no_effects
          = Some (Inr shared_ts, send (ListFiles ''o'' ''r'' 1 100 1) no_effects)
      \<and> pulls_list (octokit (draft_repo (Inr []) (Inl (Error ?m)))) 100 = Inr open_prs
      \<and> aggregate (draft_repo (Inr []) (Inl (Error ?m))) False current_pr shared_ts open_prs []
            no_effects
          = Some (Inr ?ws, s2)
      \<and> ?ws \<noteq> [] \<and> True
      \<and> issues_createComment (octokit (draft_repo (Inr []) (Inl (Error ?m))))
            (number current_pr) (generateSummary ?ws) = Inl (Error ?m)" ..
  from comment_failure_is_warning [THEN conjunct1, rule_format, OF h2] b
  have 2: "map_option warnings (run (draft_context False True (Inr []) (Inl (Error ?m))))
     = Some [''PR #2 may have conflicts: 1 overlapping files'',
             ''PR #4 may have conflicts: 1 overlapping files'', permission_warning]
   \<and> map_option failed (run (draft_context False True (Inr []) (Inl (Error ?m)))) = Some None
   \<and> map_option outputs (run (draft_context False True (Inr []) (Inl (Error ?m))))
     = Some [(''has-conflicts'', OutString ''true''), (''conflict-count'', OutNumber 2),
         (''conflicts'', OutJSON ?ws)]"
    by (auto simp: overlap_def example_numbers)
  from 1 2 show ?thesis by simp
qed
section \<open>Thrown values that are not errors\<close>

text \<open>
  Claim C10. Both handlers act only on an instance of \<open>Error\<close>. When the \<open>try\<close>
  block of a run throws any other value, from the reads at the start on, the outer
  handler leaves the effects as they were at the throw: the run ends without \<open>setFailed\<close>, with no output set and no
  summary written; such a value can come from the fetch of the current pull request's
  files, from the listing, or from the fetch for a candidate that is reached and not
  skipped. When the posting of the comment throws such a value, the run ends without
  \<open>setFailed\<close>, with the three outputs set, and the warnings are those of the loop
  alone: none is added.
\<close>

theorem non_error_is_ignored:
  "(run_try ctx = Some (Inl (NonError v), st) \<longrightarrow>
      run ctx = Some st \<and> failed st = None \<and> outputs st = [] \<and> summaries st = [])
   \<and> (read_inputs ctx = (Inr (incl, post, ri), st0) \<and> pull_request ctx = Some cur
        \<and> (getPRFiles ri (number cur) s1 = Some (Inl (NonError v), s1')
           \<or> (\<exists>files. getPRFiles ri (number cur) s1 = Some (Inr files, s1')
                \<and> (pulls_list (octokit ri) 100 = Inl (NonError v)
                   \<or> (\<exists>before pr after. pulls_list (octokit ri) 100 = Inr (before @ pr # after)
                        \<and> (\<forall>p \<in> set before. number p = number cur \<or> (draft p \<and> \<not> incl)
                              \<or> (\<exists>fs s s'. getPRFiles ri (number p) s = Some (Inr fs, s')))
                        \<and> number pr \<noteq> number cur \<and> (draft pr \<longrightarrow> incl)
                        \<and> getPRFiles ri (number pr) s2 = Some (Inl (NonError v), s2')))))
      \<longrightarrow> (\<exists>st. run_try ctx = Some (Inl (NonError v), st) \<and> run ctx = Some st
             \<and> failed st = None \<and> outputs st = [] \<and> summaries st = []))
   \<and> (read_inputs ctx = (Inr (incl, post, ri), st0) \<and> pull_request ctx = Some cur
        \<and> getPRFiles ri (number cur) s1 = Some (Inr files, s1')
        \<and> pulls_list (octokit ri) 100 = Inr prs
        \<and> aggregate ri incl cur files prs [] s2 = Some (Inr ws, s2')
        \<and> ws \<noteq> [] \<and> post
        \<and> issues_createComment (octokit ri) (number cur) (generateSummary ws) = Inl (NonError v)
      \<longrightarrow> (\<exists>st. run ctx = Some st \<and> failed st = None
            \<and> outputs st = [(''has-conflicts'', OutString ''true''),
                             (''conflict-count'', OutNumber (length ws)),
                             (''conflicts'', OutJSON ws)]
            \<and> last (requests st) = CreateComment (owner ri) (repo ri)
                                       (number cur) (generateSummary ws)
            \<and> warnings st =
                map (\<lambda>w. ''PR #'' @ show_int (prNumber w) @ '' may have conflicts: ''
                       @ show_nat (length (conflictingFiles w)) @ '' overlapping files'') ws))"
proof (intro conjI; rule impI)
  assume t: "run_try ctx = Some (Inl (NonError v), st)"
  then have "outputs st = [] \<and> failed st = None \<and> summaries st = []"
  proof (cases rule: run_try_cases)
    case (input_error e)
    from read_inputs_effects [OF input_error(1)] show ?thesis by simp
  qed simp_all
  with run_of_try [OF t]
  show "run ctx = Some st \<and> failed st = None \<and> outputs st = [] \<and> summaries st = []"
    by simp
next
  assume h: "read_inputs ctx = (Inr (incl, post, ri), st0) \<and> pull_request ctx = Some cur
        \<and> (getPRFiles ri (number cur) s1 = Some (Inl (NonError v), s1')
           \<or> (\<exists>files. getPRFiles ri (number cur) s1 = Some (Inr files, s1')
                \<and> (pulls_list (octokit ri) 100 = Inl (NonError v)
                   \<or> (\<exists>before pr after. pulls_list (octokit ri) 100 = Inr (before @ pr # after)
                        \<and> (\<forall>p \<in> set before. number p = number cur \<or> (draft p \<and> \<not> incl)
                              \<or> (\<exists>fs s s'. getPRFiles ri (number p) s = Some (Inr fs, s')))
                        \<and> number pr \<noteq> number cur \<and> (draft pr \<longrightarrow> incl)
                        \<and> getPRFiles ri (number pr) s2 = Some (Inl (NonError v), s2')))))"
  then have i: "read_inputs ctx = (Inr (incl, post, ri), st0)"
    and cur: "pull_request ctx = Some cur" by simp_all
  from h consider
    (fetch) "getPRFiles ri (number cur) s1 = Some (Inl (NonError v), s1')"
  | (list) files where "getPRFiles ri (number cur) s1 = Some (Inr files, s1')"
      "pulls_list (octokit ri) 100 = Inl (NonError v)"
  | (loop) files before pr after where
      "getPRFiles ri (number cur) s1 = Some (Inr files, s1')"
      "pulls_list (octokit ri) 100 = Inr (before @ pr # after)"
      "\<forall>p \<in> set before. number p = number cur \<or> (draft p \<and> \<not> incl)
          \<or> (\<exists>fs s s'. getPRFiles ri (number p) s = Some (Inr fs, s'))"
      "number pr \<noteq> number cur" "draft pr \<longrightarrow> incl"
      "getPRFiles ri (number pr) s2 = Some (Inl (NonError v), s2')"
    by blast
  then have "\<exists>st. run_try ctx = Some (Inl (NonError v), st)
     \<and> outputs st = [] \<and> failed st = None \<and> summaries st = []"
  proof cases
    case fetch
    then show ?thesis by (intro run_try_throws [OF i cur, of s1 _ s1']) simp
  next
    case list
    then show ?thesis by (intro run_try_throws [OF i cur, of s1 _ s1']) simp
  next
    case loop
    from aggregate_throws [OF loop(3,4,5,6), of files after "[]" s2] obtain pushed st' where
      "aggregate ri incl cur files (before @ pr # after) [] s2
        = Some (Inl (NonError v, pushed), st')" by blast
    with loop(1,2) show ?thesis by (intro run_try_throws [OF i cur, of s1 _ s1' s2 st']) auto
  qed
  then obtain st where st: "run_try ctx = Some (Inl (NonError v), st)"
    "outputs st = []" "failed st = None" "summaries st = []" by blast
  with run_of_try [OF st(1)]
  show "\<exists>st. run_try ctx = Some (Inl (NonError v), st) \<and> run ctx = Some st
             \<and> failed st = None \<and> outputs st = [] \<and> summaries st = []"
    by simp
next
  assume h: "read_inputs ctx = (Inr (incl, post, ri), st0) \<and> pull_request ctx = Some cur
        \<and> getPRFiles ri (number cur) s1 = Some (Inr files, s1')
        \<and> pulls_list (octokit ri) 100 = Inr prs
        \<and> aggregate ri incl cur files prs [] s2 = Some (Inr ws, s2')
        \<and> ws \<noteq> [] \<and> post
        \<and> issues_createComment (octokit ri) (number cur) (generateSummary ws) = Inl (NonError v)"
  then have "\<exists>st. run_try ctx = Some (Inr (), report ri post cur ws st)
     \<and> outputs st = [] \<and> failed st = None \<and> summaries st = []
     \<and> warnings st = map (\<lambda>w. ''PR #'' @ show_int (prNumber w) @ '' may have conflicts: ''
                 @ show_nat (length (conflictingFiles w)) @ '' overlapping files'') ws"
    by (intro run_try_completes [of ctx incl post ri st0 cur s1 files s1' prs s2 ws s2']) simp_all
  then obtain st5 where st5:
    "run_try ctx = Some (Inr (), report ri post cur ws st5)"
    "outputs st5 = []" "failed st5 = None"
    "warnings st5 = map (\<lambda>w. ''PR #'' @ show_int (prNumber w) @ '' may have conflicts: ''
                 @ show_nat (length (conflictingFiles w)) @ '' overlapping files'') ws"
    by blast
  let ?st = "report ri post cur ws st5"
  have "run ctx = Some ?st"
    using run_of_try [OF st5(1)] by simp
  moreover have "failed ?st = None"
    using st5(3) by (simp add: report_failed)
  moreover have "outputs ?st = [(''has-conflicts'', OutString ''true''),
                           (''conflict-count'', OutNumber (length ws)),
                           (''conflicts'', OutJSON ws)]"
    using st5(2) h by (simp add: report_outputs)
  moreover have "last (requests ?st) = CreateComment (owner ri) (repo ri)
                                     (number cur) (generateSummary ws)"
    using h by (simp add: report_requests)
  moreover have "warnings ?st =
              map (\<lambda>w. ''PR #'' @ show_int (prNumber w) @ '' may have conflicts: ''
                     @ show_nat (length (conflictingFiles w)) @ '' overlapping files'') ws"
    using st5(4) h by (simp add: report_warnings)
  ultimately show "\<exists>st. run ctx = Some st \<and> failed st = None
            \<and> outputs st = [(''has-conflicts'', OutString ''true''),
                             (''conflict-count'', OutNumber (length ws)),
                             (''conflicts'', OutJSON ws)]
            \<and> last (requests st) = CreateComment (owner ri) (repo ri)
                                       (number cur) (generateSummary ws)
            \<and> warnings st =
                map (\<lambda>w. ''PR #'' @ show_int (prNumber w) @ '' may have conflicts: ''
                       @ show_nat (length (conflictingFiles w)) @ '' overlapping files'') ws"
    by blast
qed

theorem non_error_is_ignored_witness:
  "run (uniform_context (Inl (NonError ''a string'')) (Inr []))
     = Some (send (ListFiles ''o'' ''r'' 1 100 1)
         (core_info ''Checking PR #1 for potential conflicts...''
           (core_debug ''Include draft PRs: false'' no_effects)))
   \<and> map_option failed (run (uniform_context (Inl (NonError ''a string'')) (Inr []))) = Some None
   \<and> map_option outputs (run (uniform_context (Inl (NonError ''a string'')) (Inr []))) = Some []
   \<and> map_option warnings (run (draft_context False True (Inr []) (Inl (NonError ''a string''))))
     = Some [''PR #2 may have conflicts: 1 overlapping files'',
             ''PR #4 may have conflicts: 1 overlapping files'']
   \<and> map_option failed (run (draft_context False True (Inr []) (Inl (NonError ''a string''))))
     = Some None"
proof -
  let ?c1 = "uniform_context (Inl (NonError ''a string'')) (Inr [])"
  let ?r1 = "uniform_repo (Inl (NonError ''a string'')) (Inr [])"
  let ?st = "send (ListFiles ''o'' ''r'' 1 100 1)
         (core_info ''Checking PR #1 for potential conflicts...''
           (core_debug ''Include draft PRs: false'' no_effects))"
  have t: "run_try ?c1 = Some (Inl (NonError ''a string''), ?st)"
    by (simp add: run_try_def uniform_example_start uniform_repo_def uniform_octokit_def
          current_pr_def getPRFiles_Inl example_numbers show_bool_def)
  from non_error_is_ignored [THEN conjunct1, rule_format, OF t]
  have 1: "run ?c1 = Some ?st \<and> map_option failed (run ?c1) = Some None
      \<and> map_option outputs (run ?c1) = Some []"
    by simp
  have "read_inputs ?c1
        = (Inr (False, False, ?r1), core_debug (''Include draft PRs: '' @ show_bool False) no_effects)
      \<and> pull_request ?c1 = Some current_pr
      \<and> (getPRFiles ?r1 (number current_pr) no_effects
            = Some (Inl (NonError ''a string''), send (ListFiles ''o'' ''r'' 1 100 1) no_effects)
         \<or> (\<exists>files. getPRFiles ?r1 (number current_pr) no_effects
                = Some (Inr files, send (ListFiles ''o'' ''r'' 1 100 1) no_effects)
              \<and> (pulls_list (octokit ?r1) 100 = Inl (NonError ''a string'')
                 \<or> (\<exists>before pr after. pulls_list (octokit ?r1) 100 = Inr (before @ pr # after)
                      \<and> (\<forall>p \<in> set before. number p = number current_pr
                            \<or> (draft p \<and> \<not> False)
                            \<or> (\<exists>fs s s'. getPRFiles ?r1 (number p) s = Some (Inr fs, s')))
                      \<and> number pr \<noteq> number current_pr \<and> (draft pr \<longrightarrow> False)
                      \<and> getPRFiles ?r1 (number pr) no_effects
                          = Some (Inl (NonError ''a string''), no_effects)))))"
    by (simp add: uniform_example_start uniform_repo_def uniform_octokit_def current_pr_def
          getPRFiles_Inl)
  from non_error_is_ignored [THEN conjunct2, THEN conjunct1, rule_format, OF this]
  have 2: "\<exists>st. run_try ?c1 = Some (Inl (NonError ''a string''), st) \<and> run ?c1 = Some st" by blast
  let ?c2 = "draft_context False True (Inr []) (Inl (NonError ''a string''))"
  let ?r2 = "draft_repo (Inr []) (Inl (NonError ''a string''))"
  let ?ws = "[overlap 2 ''Other PR'', overlap 4 ''Late PR'']"
  have "\<exists>s. read_inputs ?c2
        = (Inr (False, True, ?r2), core_debug (''Include draft PRs: '' @ show_bool False) no_effects)
      \<and> pull_request ?c2 = Some current_pr
      \<and> getPRFiles ?r2 (number current_pr) no_effects
          = Some (Inr shared_ts, send (ListFiles ''o'' ''r'' 1 100 1) no_effects)
      \<and> pulls_list (octokit ?r2) 100 = Inr open_prs
      \<and> aggregate ?r2 False current_pr shared_ts open_prs [] no_effects = Some (Inr ?ws, s)
      \<and> ?ws \<noteq> [] \<and> True
      \<and> issues_createComment (octokit ?r2) (number current_pr) (generateSummary ?ws)
          = Inl (NonError ''a string'')"
    using draft_example_start [of False True "Inr []" "Inl (NonError ''a string'')"]
      draft_example_skipped [of "Inr []" "Inl (NonError ''a string'')"]
    by (auto simp: draft_repo_def draft_octokit_def)
  then obtain s where h: "read_inputs ?c2
        = (Inr (False, True, ?r2), core_debug (''Include draft PRs: '' @ show_bool False) no_effects)
      \<and> pull_request ?c2 = Some current_pr
      \<and> getPRFiles ?r2 (number current_pr) no_effects
          = Some (Inr shared_ts, send (ListFiles ''o'' ''r'' 1 100 1) no_effects)
      \<and> pulls_list (octokit ?r2) 100 = Inr open_prs
      \<and> aggregate ?r2 False current_pr shared_ts open_prs [] no_effects = Some (Inr ?ws, s)
      \<and> ?ws \<noteq> [] \<and> True
      \<and> issues_createComment (octokit ?r2) (number current_pr) (generateSummary ?ws)
          = Inl (NonError ''a string'')" ..
  from non_error_is_ignored [THEN conjunct2, THEN conjunct2, rule_format, OF h]
  have 3: "map_option warnings (run ?c2)
       = Some [''PR #2 may have conflicts: 1 overlapping files'',
               ''PR #4 may have conflicts: 1 overlapping files'']
     \<and> map_option failed (run ?c2) = Some None"
    by (auto simp: overlap_def example_numbers)
  from 1 2 3 show ?thesis
    by (simp add: send_def core_info_def core_debug_def no_effects_def)
qed
section \<open>Outputs and summary of the run\<close>

text \<open>
  Claim C4. At the end of every run the output \<open>has-conflicts\<close> is \<open>"true"\<close>
  exactly when \<open>conflict-count\<close> is set to a number above zero, and \<open>conflicts\<close> is
  set exactly then. A run whose reads at the start, fetches and listing succeed and whose
  loop produces the records \<open>ws\<close> ends without failure, with \<open>conflict-count\<close> the number of records,
  \<open>has-conflicts\<close> the string \<open>"true"\<close> or \<open>"false"\<close> accordingly, and
  \<open>conflicts\<close> the encoded array \<open>ws\<close> if there is a record and unset otherwise.
\<close>

theorem run_outputs:
  "(run ctx = Some st \<longrightarrow>
      (output_of st ''has-conflicts'' = Some (OutString ''true'')
         \<longleftrightarrow> (\<exists>n. 0 < n \<and> output_of st ''conflict-count'' = Some (OutNumber n)))
    \<and> (output_of st ''conflicts'' \<noteq> None
         \<longleftrightarrow> (\<exists>n. 0 < n \<and> output_of st ''conflict-count'' = Some (OutNumber n))))
   \<and> (read_inputs ctx = (Inr (incl, post, ri), st0) \<and> pull_request ctx = Some cur
        \<and> getPRFiles ri (number cur) s1 = Some (Inr files, s1')
        \<and> pulls_list (octokit ri) 100 = Inr prs
        \<and> aggregate ri incl cur files prs [] s2 = Some (Inr ws, s2')
      \<longrightarrow> (\<exists>st. run ctx = Some st \<and> failed st = None
            \<and> output_of st ''conflict-count'' = Some (OutNumber (length ws))
            \<and> output_of st ''has-conflicts'' = Some (OutString (if 0 < length ws then ''true'' else ''false''))
            \<and> output_of st ''conflicts'' = (if 0 < length ws then Some (OutJSON ws) else None)))"
proof (intro conjI; rule impI)
  assume "run ctx = Some st"
  from run_reported [OF this] consider "outputs st = []"
    | ws where "ws \<noteq> []" "outputs st = [(''has-conflicts'', OutString ''true''),
          (''conflict-count'', OutNumber (length ws)), (''conflicts'', OutJSON ws)]"
    | "outputs st = [(''has-conflicts'', OutString ''false''), (''conflict-count'', OutNumber 0)]"
    by (auto split: if_splits)
  then show "(output_of st ''has-conflicts'' = Some (OutString ''true'')
         \<longleftrightarrow> (\<exists>n. 0 < n \<and> output_of st ''conflict-count'' = Some (OutNumber n)))
    \<and> (output_of st ''conflicts'' \<noteq> None
         \<longleftrightarrow> (\<exists>n. 0 < n \<and> output_of st ''conflict-count'' = Some (OutNumber n)))"
    by cases (simp_all add: output_of_def)
next
  assume "read_inputs ctx = (Inr (incl, post, ri), st0) \<and> pull_request ctx = Some cur
        \<and> getPRFiles ri (number cur) s1 = Some (Inr files, s1')
        \<and> pulls_list (octokit ri) 100 = Inr prs
        \<and> aggregate ri incl cur files prs [] s2 = Some (Inr ws, s2')"
  then have "\<exists>st. run ctx = Some st \<and> failed st = None
     \<and> outputs st =
         (if ws \<noteq> []
          then [(''has-conflicts'', OutString ''true''), (''conflict-count'', OutNumber (length ws)),
                (''conflicts'', OutJSON ws)]
          else [(''has-conflicts'', OutString ''false''), (''conflict-count'', OutNumber 0)])
     \<and> summaries st = (if ws \<noteq> [] then [generateSummary ws] else [])"
    by (intro run_completes [of ctx incl post ri st0 cur s1 files s1' prs s2 ws s2']) simp_all
  then obtain st where st: "run ctx = Some st" "failed st = None"
    "outputs st =
         (if ws \<noteq> []
          then [(''has-conflicts'', OutString ''true''), (''conflict-count'', OutNumber (length ws)),
                (''conflicts'', OutJSON ws)]
          else [(''has-conflicts'', OutString ''false''), (''conflict-count'', OutNumber 0)])"
    by blast
  have "output_of st ''conflict-count'' = Some (OutNumber (length ws))
            \<and> output_of st ''has-conflicts'' = Some (OutString (if 0 < length ws then ''true'' else ''false''))
            \<and> output_of st ''conflicts'' = (if 0 < length ws then Some (OutJSON ws) else None)"
    using st(3) by (cases "ws = []") (simp_all add: output_of_def)
  with st(1,2) show "\<exists>st. run ctx = Some st \<and> failed st = None
            \<and> output_of st ''conflict-count'' = Some (OutNumber (length ws))
            \<and> output_of st ''has-conflicts'' = Some (OutString (if 0 < length ws then ''true'' else ''false''))
            \<and> output_of st ''conflicts'' = (if 0 < length ws then Some (OutJSON ws) else None)"
    by blast
qed


theorem run_outputs_witness:
  "map_option (\<lambda>st. output_of st ''conflict-count'') (run (draft_context False False (Inr []) (Inr ())))
     = Some (Some (OutNumber 2))
   \<and> map_option (\<lambda>st. output_of st ''has-conflicts'') (run (draft_context False False (Inr []) (Inr ())))
     = Some (Some (OutString ''true''))
   \<and> map_option (\<lambda>st. output_of st ''conflicts'') (run (draft_context False False (Inr []) (Inr ())))
     = Some (Some (OutJSON [overlap 2 ''Other PR'', overlap 4 ''Late PR'']))
   \<and> map_option (\<lambda>st. output_of st ''conflict-count'') (run (uniform_context (Inr []) (Inr [])))
     = Some (Some (OutNumber 0))
   \<and> map_option (\<lambda>st. output_of st ''has-conflicts'') (run (uniform_context (Inr []) (Inr [])))
     = Some (Some (OutString ''false''))
   \<and> map_option (\<lambda>st. output_of st ''conflicts'') (run (uniform_context (Inr []) (Inr []))) = Some None"
proof -
  let ?ws = "[overlap 2 ''Other PR'', overlap 4 ''Late PR'']"
  let ?c1 = "draft_context False False (Inr []) (Inr ())"
  let ?r1 = "draft_repo (Inr []) (Inr ())"
  have "\<exists>s. read_inputs ?c1
        = (Inr (False, False, ?r1), core_debug (''Include draft PRs: '' @ show_bool False) no_effects)
      \<and> pull_request ?c1 = Some current_pr
      \<and> getPRFiles ?r1 (number current_pr) no_effects
          = Some (Inr shared_ts, send (ListFiles ''o'' ''r'' 1 100 1) no_effects)
      \<and> pulls_list (octokit ?r1) 100 = Inr open_prs
      \<and> aggregate ?r1 False current_pr shared_ts open_prs [] no_effects = Some (Inr ?ws, s)"
    using draft_example_start [of False False "Inr []" "Inr ()"]
      draft_example_skipped [of "Inr []" "Inr ()"]
    by auto
  then obtain s where h: "read_inputs ?c1
        = (Inr (False, False, ?r1), core_debug (''Include draft PRs: '' @ show_bool False) no_effects)
      \<and> pull_request ?c1 = Some current_pr
      \<and> getPRFiles ?r1 (number current_pr) no_effects
          = Some (Inr shared_ts, send (ListFiles ''o'' ''r'' 1 100 1) no_effects)
      \<and> pulls_list (octokit ?r1) 100 = Inr open_prs
      \<and> aggregate ?r1 False current_pr shared_ts open_prs [] no_effects = Some (Inr ?ws, s)" ..
  from run_outputs [THEN conjunct2, rule_format, OF h] obtain st1 where st1:
    "run ?c1 = Some st1" "output_of st1 ''conflict-count'' = Some (OutNumber 2)"
    "output_of st1 ''has-conflicts'' = Some (OutString ''true'')"
    "output_of st1 ''conflicts'' = Some (OutJSON ?ws)"
    by auto
  from run_outputs [THEN conjunct1, rule_format, OF st1(1)] st1
  have 1: "map_option (\<lambda>st. output_of st ''conflict-count'') (run ?c1) = Some (Some (OutNumber 2))
     \<and> map_option (\<lambda>st. output_of st ''has-conflicts'') (run ?c1) = Some (Some (OutString ''true''))
     \<and> map_option (\<lambda>st. output_of st ''conflicts'') (run ?c1) = Some (Some (OutJSON ?ws))"
    by simp
  let ?c0 = "uniform_context (Inr []) (Inr [])"
  let ?r0 = "uniform_repo (Inr []) (Inr [])"
  have "read_inputs ?c0
        = (Inr (False, False, ?r0), core_debug (''Include draft PRs: '' @ show_bool False) no_effects)
      \<and> pull_request ?c0 = Some current_pr
      \<and> getPRFiles ?r0 (number current_pr) no_effects
          = Some (Inr [], send (ListFiles (owner ?r0) (repo ?r0) (number current_pr) 100 1) no_effects)
      \<and> pulls_list (octokit ?r0) 100 = Inr []
      \<and> aggregate ?r0 False current_pr [] [] [] no_effects = Some (Inr [], no_effects)"
    by (simp add: uniform_example_start getPRFiles_one_page)
  from run_outputs [THEN conjunct2, rule_format, OF this] obtain st0 where st0:
    "run ?c0 = Some st0" "output_of st0 ''conflict-count'' = Some (OutNumber 0)"
    "output_of st0 ''has-conflicts'' = Some (OutString ''false'')"
    "output_of st0 ''conflicts'' = None"
    by auto
  from run_outputs [THEN conjunct1, rule_format, OF st0(1)] st0
  have 0: "map_option (\<lambda>st. output_of st ''conflict-count'') (run ?c0) = Some (Some (OutNumber 0))
     \<and> map_option (\<lambda>st. output_of st ''has-conflicts'') (run ?c0) = Some (Some (OutString ''false''))
     \<and> map_option (\<lambda>st. output_of st ''conflicts'') (run ?c0) = Some None"
    by simp
  from 0 1 show ?thesis by simp
qed

text \<open>
  Claim C8. At the end of every run a summary has been written exactly when
  \<open>conflict-count\<close> is set to a number above zero, and then it is the one document
  \<open>generateSummary ws\<close> of the reported records; a run whose reads at the start
  succeed and that produces the records \<open>ws\<close> writes it if there is a record and writes nothing otherwise. The document is
  the template of the specification: per record the number and title, the count line,
  the first \<open>min k 10\<close> filenames in the order of the detector as bullets, the line
  \<open>... and k-10 more\<close> exactly when \<open>k > 10\<close>; the fixed note ends it.
\<close>

theorem summary_written:
  "(run ctx = Some st \<longrightarrow>
      (summaries st \<noteq> [] \<longleftrightarrow> (\<exists>n. 0 < n \<and> output_of st ''conflict-count'' = Some (OutNumber n)))
    \<and> (summaries st = []
        \<or> (\<exists>ws. output_of st ''conflicts'' = Some (OutJSON ws) \<and> summaries st = [generateSummary ws])))
   \<and> (read_inputs ctx = (Inr (incl, post, ri), st0) \<and> pull_request ctx = Some cur
        \<and> getPRFiles ri (number cur) s1 = Some (Inr files, s1')
        \<and> pulls_list (octokit ri) 100 = Inr prs
        \<and> aggregate ri incl cur files prs [] s2 = Some (Inr ws, s2')
      \<longrightarrow> (\<exists>st. run ctx = Some st
            \<and> summaries st = (if 0 < length ws then [generateSummary ws] else [])))
   \<and> generateSummary ws = summary_document ws"
proof (intro conjI; (rule impI)?)
  assume "run ctx = Some st"
  from run_reported [OF this] consider "outputs st = []" "summaries st = []"
    | ws where "ws \<noteq> []" "outputs st = [(''has-conflicts'', OutString ''true''),
          (''conflict-count'', OutNumber (length ws)), (''conflicts'', OutJSON ws)]"
        "summaries st = [generateSummary ws]"
    | "outputs st = [(''has-conflicts'', OutString ''false''), (''conflict-count'', OutNumber 0)]"
        "summaries st = []"
    by (auto split: if_splits)
  then show "(summaries st \<noteq> [] \<longleftrightarrow> (\<exists>n. 0 < n \<and> output_of st ''conflict-count'' = Some (OutNumber n)))
    \<and> (summaries st = []
        \<or> (\<exists>ws. output_of st ''conflicts'' = Some (OutJSON ws) \<and> summaries st = [generateSummary ws]))"
    by cases (simp_all add: output_of_def)
next
  assume "read_inputs ctx = (Inr (incl, post, ri), st0) \<and> pull_request ctx = Some cur
        \<and> getPRFiles ri (number cur) s1 = Some (Inr files, s1')
        \<and> pulls_list (octokit ri) 100 = Inr prs
        \<and> aggregate ri incl cur files prs [] s2 = Some (Inr ws, s2')"
  then have "\<exists>st. run ctx = Some st \<and> failed st = None
     \<and> outputs st =
         (if ws \<noteq> []
          then [(''has-conflicts'', OutString ''true''), (''conflict-count'', OutNumber (length ws)),
                (''conflicts'', OutJSON ws)]
          else [(''has-conflicts'', OutString ''false''), (''conflict-count'', OutNumber 0)])
     \<and> summaries st = (if ws \<noteq> [] then [generateSummary ws] else [])"
    by (intro run_completes [of ctx incl post ri st0 cur s1 files s1' prs s2 ws s2']) simp_all
  then show "\<exists>st. run ctx = Some st
            \<and> summaries st = (if 0 < length ws then [generateSummary ws] else [])"
    by auto
next
  show "generateSummary ws = summary_document ws"
    by (rule generateSummary_document)
qed


theorem summary_written_witness:
  "map_option summaries (run (draft_context False False (Inr []) (Inr ())))
     = Some [generateSummary [overlap 2 ''Other PR'', overlap 4 ''Late PR'']]
   \<and> map_option summaries (run (uniform_context (Inr []) (Inr []))) = Some []
   \<and> generateSummary [\<lparr>prNumber = 7, prTitle = ''Big'', conflictingFiles = replicate 12 ''f.ts''\<rparr>]
     = ''## Potential Merge Conflicts Detected'' @ [CHR 0x0A, CHR 0x0A]
       @ ''The following PRs modify the same files and may have conflicts when this PR is merged:''
       @ [CHR 0x0A, CHR 0x0A]
       @ ''### PR #7: Big'' @ [CHR 0x0A]
       @ ''**Overlapping files (12):**'' @ [CHR 0x0A]
       @ concat (replicate 10 (''- `f.ts`'' @ [CHR 0x0A]))
       @ ''- ... and 2 more'' @ [CHR 0x0A]
       @ [CHR 0x0A]
       @ ''> **Note:** This is a heuristic check based on file overlap. Actual merge conflicts may or may not occur.''
       @ [CHR 0x0A]"
proof -
  let ?ws = "[overlap 2 ''Other PR'', overlap 4 ''Late PR'']"
  let ?c1 = "draft_context False False (Inr []) (Inr ())"
  let ?r1 = "draft_repo (Inr []) (Inr ())"
  have "\<exists>s. read_inputs ?c1
        = (Inr (False, False, ?r1), core_debug (''Include draft PRs: '' @ show_bool False) no_effects)
      \<and> pull_request ?c1 = Some current_pr
      \<and> getPRFiles ?r1 (number current_pr) no_effects
          = Some (Inr shared_ts, send (ListFiles ''o'' ''r'' 1 100 1) no_effects)
      \<and> pulls_list (octokit ?r1) 100 = Inr open_prs
      \<and> aggregate ?r1 False current_pr shared_ts open_prs [] no_effects = Some (Inr ?ws, s)"
    using draft_example_start [of False False "Inr []" "Inr ()"]
      draft_example_skipped [of "Inr []" "Inr ()"]
    by auto
  then obtain s where h: "read_inputs ?c1
        = (Inr (False, False, ?r1), core_debug (''Include draft PRs: '' @ show_bool False) no_effects)
      \<and> pull_request ?c1 = Some current_pr
      \<and> getPRFiles ?r1 (number current_pr) no_effects
          = Some (Inr shared_ts, send (ListFiles ''o'' ''r'' 1 100 1) no_effects)
      \<and> pulls_list (octokit ?r1) 100 = Inr open_prs
      \<and> aggregate ?r1 False current_pr shared_ts open_prs [] no_effects = Some (Inr ?ws, s)" ..
  from summary_written [THEN conjunct2, THEN conjunct1, rule_format, OF h] obtain st1 where st1:
    "run ?c1 = Some st1" "summaries st1 = [generateSummary ?ws]"
    by auto
  from summary_written [THEN conjunct1, rule_format, OF st1(1)] st1
  have 1: "map_option summaries (run ?c1) = Some [generateSummary ?ws]"
    by simp
  let ?c0 = "uniform_context (Inr []) (Inr [])"
  let ?r0 = "uniform_repo (Inr []) (Inr [])"
  have "read_inputs ?c0
        = (Inr (False, False, ?r0), core_debug (''Include draft PRs: '' @ show_bool False) no_effects)
      \<and> pull_request ?c0 = Some current_pr
      \<and> getPRFiles ?r0 (number current_pr) no_effects
          = Some (Inr [], send (ListFiles (owner ?r0) (repo ?r0) (number current_pr) 100 1) no_effects)
      \<and> pulls_list (octokit ?r0) 100 = Inr []
      \<and> aggregate ?r0 False current_pr [] [] [] no_effects = Some (Inr [], no_effects)"
    by (simp add: uniform_example_start getPRFiles_one_page)
  from summary_written [THEN conjunct2, THEN conjunct1, rule_format, OF this] obtain st0 where st0:
    "run ?c0 = Some st0" "summaries st0 = []"
    by auto
  from summary_written [THEN conjunct1, rule_format, OF st0(1)] st0
  have 0: "map_option summaries (run ?c0) = Some []"
    by simp
  have 2: "generateSummary [\<lparr>prNumber = 7, prTitle = ''Big'', conflictingFiles = replicate 12 ''f.ts''\<rparr>]
     = ''## Potential Merge Conflicts Detected'' @ [CHR 0x0A, CHR 0x0A]
       @ ''The following PRs modify the same files and may have conflicts when this PR is merged:''
       @ [CHR 0x0A, CHR 0x0A]
       @ ''### PR #7: Big'' @ [CHR 0x0A]
       @ ''**Overlapping files (12):**'' @ [CHR 0x0A]
       @ concat (replicate 10 (''- `f.ts`'' @ [CHR 0x0A]))
       @ ''- ... and 2 more'' @ [CHR 0x0A]
       @ [CHR 0x0A]
       @ ''> **Note:** This is a heuristic check based on file overlap. Actual merge conflicts may or may not occur.''
       @ [CHR 0x0A]"
    unfolding summary_written [THEN conjunct2, THEN conjunct2]
    by (simp add: summary_document_def summary_section_def example_numbers)
  from 0 1 2 show ?thesis by (intro conjI)
qed

end
